theory Spec2Isabelle
  imports Main "HOL-Library.Multiset"
begin

section \<open>Shared data: errors and execution results\<close>

text \<open>
  The TypeScript sources raise plain \<open>Error\<close> objects that differ only in their message.
  Every \<open>throw new Error(...)\<close> and every \<open>reject(new Error(...))\<close> of the modelled
  functions is one constructor below, named after the error kind of the design
  document; the argument is the variable part of the message.

  \<^item> \<open>Unknown host: h\<close> is \<open>UnknownHost h\<close>;
  \<^item> \<open>Failed to read SSH key: p\<close> is \<open>KeyReadFailed p\<close>;
  \<^item> \<open>Connection timeout to h\<close> is \<open>ConnectTimeout h\<close>;
  \<^item> \<open>SSH connection error: m\<close> is \<open>TransportError m\<close>;
  \<^item> \<open>Exec failed: m\<close> is \<open>ExecFailed m\<close>;
  \<^item> \<open>Stream error: m\<close> is \<open>StreamError m\<close>;
  \<^item> \<open>Job not found: j\<close> is \<open>JobNotFound j\<close>;
  \<^item> \<open>Snapshot not found: s\<close> is \<open>SnapshotNotFound s\<close>;
  \<^item> \<open>Git snapshot missing commit hash\<close>, \<open>Tar snapshot missing backup path\<close> and
    \<open>File snapshot missing backup path\<close> are \<open>CorruptRecord\<close> with that message;
  \<^item> \<open>Unknown snapshot type: t\<close> is \<open>UnknownSnapshotType t\<close>.
\<close>

datatype error =
    UnknownHost string
  | KeyReadFailed string
  | ConnectTimeout string
  | TransportError string
  | ExecFailed string
  | StreamError string
  | JobNotFound string
  | SnapshotNotFound string
  | CorruptRecord string
  | UnknownSnapshotType string

text \<open>The interface \<open>ExecResult\<close>. Times and durations are milliseconds, as \<open>Date.now()\<close> gives them.\<close>

record exec_result =
  stdout :: string
  stderr :: string
  exitCode :: int
  duration :: int

section \<open>Connection pool (connection-manager.ts)\<close>

text \<open>
  \<open>ConnectionEntry\<close>. The ssh2 client object is opaque to the pool; it is a number here,
  and the clients on which \<open>end()\<close> was called are collected in \<open>ended\<close>.
  The \<open>Map<string, ConnectionEntry>\<close> is an association list in insertion order; a
  JavaScript map holds each key once, which is the predicate \<open>pool_ok\<close>.
\<close>

record connection_entry =
  client :: nat
  lastUsed :: int
  connecting :: bool
  ready :: bool

record pool =
  connections :: "(string \<times> connection_entry) list"
  ended :: "nat list"

definition pool_ok :: "pool \<Rightarrow> bool" where
  "pool_ok p = distinct (map fst (connections p))"

definition idleTimeout :: int where
  "idleTimeout = 300000"

text \<open>\<open>close(hostName)\<close>: ends the client of the entry, if there is one, and deletes the key.\<close>

definition close :: "string \<Rightarrow> pool \<Rightarrow> pool" where
  "close hostName p =
     (case map_of (connections p) hostName of
        None \<Rightarrow> p
      | Some entry \<Rightarrow>
          p\<lparr>connections := filter (\<lambda>(n, e). n \<noteq> hostName) (connections p),
            ended := ended p @ [client entry]\<rparr>)"

text \<open>
  The body of the interval callback of \<open>startIdleCheck\<close>, run at clock reading \<open>now\<close>:
  the loop visits the entries of the map and closes each one whose last use is more than
  \<open>idleTimeout\<close> ago.
\<close>

definition idleCheck :: "int \<Rightarrow> pool \<Rightarrow> pool" where
  "idleCheck now p =
     fold (\<lambda>(name, entry) q. if now - lastUsed entry > idleTimeout then close name q else q)
       (connections p) p"

text \<open>
  \<open>getConnection\<close> and \<open>connect\<close>. What the ssh2 library and the file system do during
  \<open>connect\<close> is outside the repository, so the one thing that happens first is an
  argument: the configuration has no such host, the key file cannot be read, the client
  emits \<open>ready\<close> (at a clock reading), it emits \<open>error\<close>, or the 30 s timer fires first.
  The number is the client that \<open>new Client()\<close> created.
\<close>

datatype connect_event =
    NoHostConfig
  | KeyUnreadable string
  | ReadyEvent nat int
  | ErrorEvent nat string
  | TimeoutEvent nat

definition map_set :: "string \<Rightarrow> 'v \<Rightarrow> (string \<times> 'v) list \<Rightarrow> (string \<times> 'v) list" where
  "map_set k v xs =
     (if k \<in> fst ` set xs then map (\<lambda>(k', v'). if k' = k then (k', v) else (k', v')) xs
      else xs @ [(k, v)])"

definition map_delete :: "string \<Rightarrow> (string \<times> 'v) list \<Rightarrow> (string \<times> 'v) list" where
  "map_delete k xs = filter (\<lambda>(k', v'). k' \<noteq> k) xs"

definition connect :: "string \<Rightarrow> connect_event \<Rightarrow> pool \<Rightarrow> (error + nat) \<times> pool" where
  "connect hostName ev p =
     (case ev of
        NoHostConfig \<Rightarrow> (Inl (UnknownHost hostName), p)
      | KeyUnreadable keyPath \<Rightarrow> (Inl (KeyReadFailed keyPath), p)
      | ReadyEvent c t \<Rightarrow>
          (Inr c, p\<lparr>connections := map_set hostName
             \<lparr>client = c, lastUsed = t, connecting = False, ready = True\<rparr> (connections p)\<rparr>)
      | ErrorEvent c m \<Rightarrow>
          (Inl (TransportError m), p\<lparr>connections := map_delete hostName (connections p)\<rparr>)
      | TimeoutEvent c \<Rightarrow>
          (Inl (ConnectTimeout hostName), p\<lparr>ended := ended p @ [c]\<rparr>))"

definition getConnection ::
  "string \<Rightarrow> int \<Rightarrow> connect_event \<Rightarrow> pool \<Rightarrow> (error + nat) \<times> pool" where
  "getConnection hostName now ev p =
     (case map_of (connections p) hostName of
        None \<Rightarrow> connect hostName ev p
      | Some entry \<Rightarrow>
          if ready entry
          then (Inr (client entry),
                p\<lparr>connections := map_set hostName (entry\<lparr>lastUsed := now\<rparr>) (connections p)\<rparr>)
          else connect hostName ev
                 (p\<lparr>connections := map_delete hostName (connections p),
                    ended := ended p @ [client entry]\<rparr>))"

section \<open>Command executor (connection-manager.ts)\<close>

text \<open>
  \<open>client.exec(command, callback)\<close> of ssh2 either hands the callback an error (the
  remote side could not start the command) or a stream, which then emits events. The
  events are listed in arrival order, each with the clock reading at its arrival. A
  promise settles once: the first \<open>close\<close> or \<open>error\<close> event decides it, and a stream
  that emits neither leaves it pending, which is the result \<open>None\<close>.
\<close>

datatype stream_event =
    Data string
  | StderrData string
  | StreamErrorEvent string
  | Close int

datatype exec_start =
    ExecErr string
  | Stream "(int \<times> stream_event) list"

fun stream_loop ::
  "int \<Rightarrow> string \<Rightarrow> string \<Rightarrow> (int \<times> stream_event) list \<Rightarrow> (error + exec_result) option" where
  "stream_loop startTime out err [] = None"
| "stream_loop startTime out err ((t, Data d) # es) = stream_loop startTime (out @ d) err es"
| "stream_loop startTime out err ((t, StderrData d) # es) = stream_loop startTime out (err @ d) es"
| "stream_loop startTime out err ((t, StreamErrorEvent m) # es) = Some (Inl (StreamError m))"
| "stream_loop startTime out err ((t, Close code) # es) =
     Some (Inr \<lparr>stdout = out, stderr = err, exitCode = code, duration = t - startTime\<rparr>)"

text \<open>
  \<open>exec(hostName, command)\<close>. \<open>ssh c command\<close> is what \<open>client.exec\<close> does for client
  \<open>c\<close> and that command; \<open>now\<close> is the clock reading inside \<open>getConnection\<close> and
  \<open>startTime\<close> the one taken once the connection is there.
\<close>

definition exec ::
  "(nat \<Rightarrow> string \<Rightarrow> exec_start) \<Rightarrow> string \<Rightarrow> string \<Rightarrow> int \<Rightarrow> int \<Rightarrow> connect_event
     \<Rightarrow> pool \<Rightarrow> (error + exec_result) option \<times> pool" where
  "exec ssh hostName command now startTime ev p =
     (case getConnection hostName now ev p of
        (Inl e, p') \<Rightarrow> (Some (Inl e), p')
      | (Inr c, p') \<Rightarrow>
          (case ssh c command of
             ExecErr m \<Rightarrow> (Some (Inl (ExecFailed m)), p')
           | Stream es \<Rightarrow> (stream_loop startTime [] [] es, p')))"

text \<open>
  \<open>execStreaming\<close> differs only in the \<open>onData\<close> callback; its calls, in order, are the
  third component of the result. The data handlers stay attached for the life of the
  stream, so every data event is passed on.
\<close>

fun onData_calls :: "(int \<times> stream_event) list \<Rightarrow> (string \<times> bool) list" where
  "onData_calls [] = []"
| "onData_calls ((t, Data d) # es) = (d, False) # onData_calls es"
| "onData_calls ((t, StderrData d) # es) = (d, True) # onData_calls es"
| "onData_calls ((t, StreamErrorEvent m) # es) = onData_calls es"
| "onData_calls ((t, Close code) # es) = onData_calls es"

definition execStreaming ::
  "(nat \<Rightarrow> string \<Rightarrow> exec_start) \<Rightarrow> string \<Rightarrow> string \<Rightarrow> int \<Rightarrow> int \<Rightarrow> connect_event
     \<Rightarrow> pool \<Rightarrow> (error + exec_result) option \<times> pool \<times> (string \<times> bool) list" where
  "execStreaming ssh hostName command now startTime ev p =
     (case getConnection hostName now ev p of
        (Inl e, p') \<Rightarrow> (Some (Inl e), p', [])
      | (Inr c, p') \<Rightarrow>
          (case ssh c command of
             ExecErr m \<Rightarrow> (Some (Inl (ExecFailed m)), p', [])
           | Stream es \<Rightarrow> (stream_loop startTime [] [] es, p', onData_calls es)))"

text \<open>
  Notions for the properties of the executor: the data events, which do not settle the
  promise, and the output that a list of events carries.
\<close>

fun is_data :: "int \<times> stream_event \<Rightarrow> bool" where
  "is_data (t, Data d) = True"
| "is_data (t, StderrData d) = True"
| "is_data (t, StreamErrorEvent m) = False"
| "is_data (t, Close code) = False"

fun stdout_of :: "(int \<times> stream_event) list \<Rightarrow> string" where
  "stdout_of [] = []"
| "stdout_of ((t, Data d) # es) = d @ stdout_of es"
| "stdout_of (e # es) = stdout_of es"

fun stderr_of :: "(int \<times> stream_event) list \<Rightarrow> string" where
  "stderr_of [] = []"
| "stderr_of ((t, StderrData d) # es) = d @ stderr_of es"
| "stderr_of (e # es) = stderr_of es"

section \<open>Text helpers of the JavaScript runtime\<close>

text \<open>
  \<open>String.prototype.trim\<close>, \<open>parseInt(s, 10)\<close>, the decimal printing of an integer inside a
  template literal, and \<open>Math.round(n / 1000)\<close> for an integer \<open>n\<close>. Characters are bytes
  here, so the white space is the ASCII white space. \<open>parseInt\<close> gives \<open>None\<close> where
  JavaScript gives \<open>NaN\<close>.
\<close>

definition isSpace :: "char \<Rightarrow> bool" where
  "isSpace c = (c \<in> set [CHR 0x09, CHR 0x0A, CHR 0x0B, CHR 0x0C, CHR 0x0D, CHR 0x20])"

definition trim :: "string \<Rightarrow> string" where
  "trim s = rev (dropWhile isSpace (rev (dropWhile isSpace s)))"

definition isDigit :: "char \<Rightarrow> bool" where
  "isDigit c = (48 \<le> (of_char c :: nat) \<and> (of_char c :: nat) \<le> 57)"

definition digits_value :: "string \<Rightarrow> nat" where
  "digits_value ds = foldl (\<lambda>a c. 10 * a + (of_char c - 48)) 0 ds"

definition parseInt :: "string \<Rightarrow> int option" where
  "parseInt s =
     (let s1 = dropWhile isSpace s;
          neg = (case s1 of [] \<Rightarrow> False | c # r \<Rightarrow> c = CHR ''-'');
          s2 = (case s1 of [] \<Rightarrow> [] | c # r \<Rightarrow> if c = CHR ''-'' \<or> c = CHR ''+'' then r else s1);
          ds = takeWhile isDigit s2
      in if ds = [] then None
         else Some (if neg then - int (digits_value ds) else int (digits_value ds)))"

function show_nat :: "nat \<Rightarrow> string" where
  "show_nat n =
     (if n < 10 then [char_of (48 + n)] else show_nat (n div 10) @ [char_of (48 + n mod 10)])"
  by pat_completeness auto
termination
  by (relation "measure id") auto

definition show_int :: "int \<Rightarrow> string" where
  "show_int i = (if i < 0 then CHR ''-'' # show_nat (nat (- i)) else show_nat (nat i))"

definition round_div_1000 :: "int \<Rightarrow> int" where
  "round_div_1000 n = (n + 500) div 1000"

section \<open>Hang watchdog (hang-detector.ts)\<close>

text \<open>
  The fields of \<open>HangDetector\<close>. \<open>timer\<close> holds the clock reading at which the pending
  \<open>setTimeout\<close> is due, \<open>None\<close> for \<open>null\<close>. The callback is a function of the caller; the
  record only says whether one is set, and the messages passed to it are results.
\<close>

record hang_detector =
  timeoutMs :: int
  timer :: "int option"
  lastActivity :: int
  callback :: bool
  alertSent :: bool

definition HangDetector :: "int \<Rightarrow> int \<Rightarrow> hang_detector" where
  "HangDetector hangTimeoutMs now =
     \<lparr>timeoutMs = hangTimeoutMs, timer = None, lastActivity = now,
      callback = False, alertSent = False\<rparr>"

definition scheduleCheck :: "int \<Rightarrow> hang_detector \<Rightarrow> hang_detector" where
  "scheduleCheck now d = d\<lparr>timer := Some (now + timeoutMs d)\<rparr>"

definition start :: "int \<Rightarrow> hang_detector \<Rightarrow> hang_detector" where
  "start now d = scheduleCheck now (d\<lparr>callback := True, lastActivity := now, alertSent := False\<rparr>)"

definition onActivity :: "int \<Rightarrow> hang_detector \<Rightarrow> hang_detector" where
  "onActivity now d = d\<lparr>lastActivity := now, alertSent := False\<rparr>"

definition stop :: "hang_detector \<Rightarrow> hang_detector" where
  "stop d = d\<lparr>timer := None, callback := False\<rparr>"

definition hang_message :: "int \<Rightarrow> string" where
  "hang_message elapsed =
     ''No output for '' @ show_int (round_div_1000 elapsed)
       @ ''s - command may be hung or waiting for input''"

text \<open>\<open>checkHang\<close>, run at clock reading \<open>now\<close>: the messages passed to the callback and the new state.\<close>

definition checkHang :: "int \<Rightarrow> hang_detector \<Rightarrow> string list \<times> hang_detector" where
  "checkHang now d =
     (let elapsed = now - lastActivity d in
      if elapsed \<ge> timeoutMs d \<and> \<not> alertSent d \<and> callback d
      then ([hang_message elapsed], scheduleCheck now (d\<lparr>alertSent := True\<rparr>))
      else ([], scheduleCheck now d))"

text \<open>
  A started watchdog sees two kinds of events: output arrives (\<open>onActivity\<close> is called) and
  the pending timer fires (\<open>checkHang\<close> is called), each at a clock reading. \<open>hd_run\<close> plays
  a list of events and collects the alerts.
\<close>

datatype hd_event = Activity int | TimerFires int

fun hd_step :: "hang_detector \<Rightarrow> hd_event \<Rightarrow> string list \<times> hang_detector" where
  "hd_step d (Activity t) = ([], onActivity t d)"
| "hd_step d (TimerFires t) = checkHang t d"

fun hd_run :: "hang_detector \<Rightarrow> hd_event list \<Rightarrow> string list \<times> hang_detector" where
  "hd_run d [] = ([], d)"
| "hd_run d (e # es) =
     (case hd_step d e of (a, d') \<Rightarrow> (case hd_run d' es of (as, d'') \<Rightarrow> (a @ as, d'')))"

text \<open>
  A timeline on which the timer is exact: the clock never goes back, output arrives no
  later than the pending timer is due, and the timer fires at the reading it is due.
\<close>

fun on_time :: "int \<Rightarrow> hang_detector \<Rightarrow> hd_event list \<Rightarrow> bool" where
  "on_time clock d [] = True"
| "on_time clock d (Activity t # es) =
     (clock \<le> t \<and> (case timer d of None \<Rightarrow> False | Some due \<Rightarrow> t \<le> due)
      \<and> on_time t (onActivity t d) es)"
| "on_time clock d (TimerFires t # es) =
     (clock \<le> t \<and> timer d = Some t \<and> on_time t (snd (checkHang t d)) es)"

section \<open>The remote side, as the job tracker and the snapshot manager see it\<close>

text \<open>
  \<open>JobTracker\<close> and \<open>SnapshotManager\<close> reach the hosts only through
  \<open>connectionManager.exec(host, command)\<close>. What a host answers is not decided by the
  repository, so the remote side is a parameter: a state \<open>'w\<close> of the world and a function
  \<open>rexec\<close> that, for a host and a command, gives the settled result of the call (rejected
  with an error, or resolved with an \<open>ExecResult\<close>) and the next state of the world.
  \<open>rnow\<close> reads the clock of a world. The calls are assumed to settle.
\<close>

record 'w remote =
  rexec :: "'w \<Rightarrow> string \<Rightarrow> string \<Rightarrow> (error + exec_result) \<times> 'w"
  rnow :: "'w \<Rightarrow> int"

section \<open>Job tracker (audit-logger.ts, class JobTracker)\<close>

datatype job_status = Running | Completed | Failed

text \<open>
  The interface \<open>Job\<close>. \<open>startTime\<close> and \<open>endTime\<close> are ISO strings in the source, written
  by \<open>toISOString\<close> and read back by \<open>new Date(...).getTime()\<close>; they are the millisecond
  readings themselves here.
\<close>

record job =
  job_id :: string
  job_host :: string
  job_command :: string
  job_name :: "string option"
  job_status :: job_status
  job_pid :: int
  job_startTime :: int
  job_endTime :: "int option"
  job_exitCode :: "int option"
  job_outputFile :: string

text \<open>
  The tracker: the \<open>Map<string, Job>\<close> in insertion order, the world, and, for the
  properties, the list of the \<open>exec\<close> calls made so far (host and command).
\<close>

record 'w tracker =
  jobs :: "(string \<times> job) list"
  world :: 'w
  issued :: "(string \<times> string) list"

definition run_exec ::
  "'w remote \<Rightarrow> string \<Rightarrow> string \<Rightarrow> 'w tracker \<Rightarrow> (error + exec_result) \<times> 'w tracker" where
  "run_exec env host cmd s =
     (case rexec env (world s) host cmd of
        (r, w') \<Rightarrow> (r, s\<lparr>world := w', issued := issued s @ [(host, cmd)]\<rparr>))"

definition checkCmd :: "job \<Rightarrow> string" where
  "checkCmd job = ''ps -p '' @ show_int (job_pid job) @ '' -o pid= 2>/dev/null || echo \"done\"''"

definition waitCmd :: "job \<Rightarrow> string" where
  "waitCmd job = ''wait '' @ show_int (job_pid job) @ '' 2>/dev/null; echo $?''"

definition killCmd :: "job \<Rightarrow> string" where
  "killCmd job =
     ''kill '' @ show_int (job_pid job) @ '' 2>/dev/null && echo \"killed\" || echo \"failed\"''"

text \<open>
  \<open>getStatus\<close> and \<open>kill\<close> are \<open>async\<close>: each runs up to an \<open>await\<close> of an \<open>exec\<close> call, is
  suspended there, and resumes when the call has settled; other operations may run in
  between. Each stretch between two suspension points is one function below. The remote
  runs a command when it is issued; the settled result is handed over when the operation
  resumes and is kept until then in the pending value, together with the key and the job
  object the operation holds. The job object is mutated in place; the table holds that
  object under the key, so reading the object is reading the table at the key
  (\<open>object_at\<close>) and the mutation is an update of the table at the key (\<open>write_object\<close>; an
  object that is no longer in the table leaves the table as it is).
\<close>

type_synonym pending = "string \<times> job \<times> (error + exec_result)"

definition object_at :: "'w tracker \<Rightarrow> string \<Rightarrow> job \<Rightarrow> job" where
  "object_at s jobId job = (case map_of (jobs s) jobId of None \<Rightarrow> job | Some j \<Rightarrow> j)"

definition write_object :: "string \<Rightarrow> job \<Rightarrow> 'w tracker \<Rightarrow> 'w tracker" where
  "write_object jobId job' s =
     (if jobId \<in> fst ` set (jobs s) then s\<lparr>jobs := map_set jobId job' (jobs s)\<rparr> else s)"

text \<open>
  \<open>getStatus(jobId)\<close>, first stretch: the lookup, the test of the status and the liveness
  probe. The result is the outcome of the call, or the pending value when the call is
  suspended at the first \<open>await\<close>.
\<close>

definition getStatus_begin ::
  "'w remote \<Rightarrow> string \<Rightarrow> 'w tracker \<Rightarrow> ((error + job) + pending) \<times> 'w tracker" where
  "getStatus_begin env jobId s =
     (case map_of (jobs s) jobId of
        None \<Rightarrow> (Inl (Inl (JobNotFound jobId)), s)
      | Some job \<Rightarrow>
          if job_status job = Running then
            (case run_exec env (job_host job) (checkCmd job) s of
               (r, s1) \<Rightarrow> (Inr (jobId, job, r), s1))
          else (Inl (Inr job), s))"

text \<open>Second stretch: resumed with the settled probe, up to the second \<open>await\<close>.\<close>

definition getStatus_afterProbe ::
  "'w remote \<Rightarrow> pending \<Rightarrow> 'w tracker \<Rightarrow> ((error + job) + pending) \<times> 'w tracker" where
  "getStatus_afterProbe env p s =
     (case p of (jobId, job, r) \<Rightarrow>
        (case r of
           Inl e \<Rightarrow> (Inl (Inl e), s)
         | Inr result \<Rightarrow>
             if trim (stdout result) = ''done'' \<or> trim (stdout result) = [] then
               (case run_exec env (job_host job) (waitCmd job) s of
                  (r2, s2) \<Rightarrow> (Inr (jobId, job, r2), s2))
             else (Inl (Inr (object_at s jobId job)), s)))"

text \<open>
  Third stretch: resumed with the settled \<open>wait\<close> command; the three assignments to the
  job object. The status is not tested again.
\<close>

definition getStatus_afterWait ::
  "'w remote \<Rightarrow> pending \<Rightarrow> 'w tracker \<Rightarrow> (error + job) \<times> 'w tracker" where
  "getStatus_afterWait env p s =
     (case p of (jobId, job, r) \<Rightarrow>
        (case r of
           Inl e \<Rightarrow> (Inl e, s)
         | Inr exitResult \<Rightarrow>
             (let exitCode = (case parseInt (trim (stdout exitResult)) of
                                None \<Rightarrow> 0 | Some n \<Rightarrow> n);
                  job' = (object_at s jobId job)
                           \<lparr>job_status := (if exitCode = 0 then Completed else Failed),
                            job_exitCode := Some exitCode,
                            job_endTime := Some (rnow env (world s))\<rparr>
              in (Inr job', write_object jobId job' s))))"

text \<open>\<open>getStatus\<close> run from its call to its return with no other operation in between.\<close>

definition getStatus :: "'w remote \<Rightarrow> string \<Rightarrow> 'w tracker \<Rightarrow> (error + job) \<times> 'w tracker" where
  "getStatus env jobId s =
     (case getStatus_begin env jobId s of
        (Inl res, s1) \<Rightarrow> (res, s1)
      | (Inr p, s1) \<Rightarrow>
          (case getStatus_afterProbe env p s1 of
             (Inl res, s2) \<Rightarrow> (res, s2)
           | (Inr q, s2) \<Rightarrow> getStatus_afterWait env q s2))"

text \<open>
  \<open>kill(jobId)\<close>, first stretch: the lookup, the test of the status and the kill command;
  second stretch: resumed with the settled command. \<open>kill\<close> is the two run with no other
  operation in between.
\<close>

definition kill_begin ::
  "'w remote \<Rightarrow> string \<Rightarrow> 'w tracker \<Rightarrow> ((error + bool) + pending) \<times> 'w tracker" where
  "kill_begin env jobId s =
     (case map_of (jobs s) jobId of
        None \<Rightarrow> (Inl (Inl (JobNotFound jobId)), s)
      | Some job \<Rightarrow>
          if job_status job \<noteq> Running then (Inl (Inr False), s)
          else
            (case run_exec env (job_host job) (killCmd job) s of
               (r, s1) \<Rightarrow> (Inr (jobId, job, r), s1)))"

definition kill_resume ::
  "'w remote \<Rightarrow> pending \<Rightarrow> 'w tracker \<Rightarrow> (error + bool) \<times> 'w tracker" where
  "kill_resume env p s =
     (case p of (jobId, job, r) \<Rightarrow>
        (case r of
           Inl e \<Rightarrow> (Inl e, s)
         | Inr result \<Rightarrow>
             if trim (stdout result) = ''killed'' then
               (let job' = (object_at s jobId job)
                             \<lparr>job_status := Failed,
                              job_exitCode := Some (- 9),
                              job_endTime := Some (rnow env (world s))\<rparr>
                in (Inr True, write_object jobId job' s))
             else (Inr False, s)))"

definition kill :: "'w remote \<Rightarrow> string \<Rightarrow> 'w tracker \<Rightarrow> (error + bool) \<times> 'w tracker" where
  "kill env jobId s =
     (case kill_begin env jobId s of
        (Inl res, s1) \<Rightarrow> (res, s1)
      | (Inr p, s1) \<Rightarrow> kill_resume env p s1)"

text \<open>
  \<open>list(hostName?)\<close>, run from its call to its return with no other operation in
  between. An absent or empty host name does not filter. The loop runs over the job
  objects picked at entry; what such an object holds at a later moment is what the table
  holds under its id (\<open>current\<close>). The sort of JavaScript is stable, and the comparator
  orders by start time, latest first.
\<close>

definition hostFilter :: "string option \<Rightarrow> string \<Rightarrow> bool" where
  "hostFilter hostName h = (case hostName of None \<Rightarrow> True | Some n \<Rightarrow> n = [] \<or> h = n)"

definition current :: "'w tracker \<Rightarrow> job \<Rightarrow> job" where
  "current s job = (case map_of (jobs s) (job_id job) of None \<Rightarrow> job | Some j \<Rightarrow> j)"

fun refresh_loop :: "'w remote \<Rightarrow> job list \<Rightarrow> 'w tracker \<Rightarrow> (error + unit) \<times> 'w tracker" where
  "refresh_loop env [] s = (Inr (), s)"
| "refresh_loop env (job # rest) s =
     (if job_status (current s job) = Running then
        (case getStatus env (job_id job) s of
           (Inl e, s') \<Rightarrow> (Inl e, s')
         | (Inr j, s') \<Rightarrow> refresh_loop env rest s')
      else refresh_loop env rest s)"

definition JobTracker_list :: "'w remote \<Rightarrow> string option \<Rightarrow> 'w tracker \<Rightarrow> (error + job list) \<times> 'w tracker" where
  "JobTracker_list env hostName s =
     (let picked = filter (\<lambda>j. hostFilter hostName (job_host j)) (map snd (jobs s)) in
      case refresh_loop env picked s of
        (Inl e, s') \<Rightarrow> (Inl e, s')
      | (Inr u, s') \<Rightarrow> (Inr (sort_key (\<lambda>j. - job_startTime j) (map (current s') picked)), s'))"

text \<open>
  Example inputs for the job tracker. The world is the number of commands run so far. The
  host of \<open>example_remote\<close> answers the first command with \<open>done\<close> and every later one with
  \<open>2\<close>; the host of \<open>killing_remote\<close> always answers \<open>killed\<close>. Job \<open>j1\<close> runs and job \<open>j0\<close>
  has completed.
\<close>

definition example_remote :: "nat remote" where
  "example_remote =
     \<lparr>rexec = (\<lambda>w h c. (Inr \<lparr>stdout = (if w = 0 then ''done\<newline>'' else ''2\<newline>''), stderr = [],
                                exitCode = 0, duration = 1\<rparr>, Suc w)),
      rnow = (\<lambda>w. 1000 + int w)\<rparr>"

definition killing_remote :: "nat remote" where
  "killing_remote =
     \<lparr>rexec = (\<lambda>w h c. (Inr \<lparr>stdout = ''killed\<newline>'', stderr = [],
                                exitCode = 0, duration = 1\<rparr>, Suc w)),
      rnow = (\<lambda>w. 1000 + int w)\<rparr>"

definition example_job1 :: job where
  "example_job1 =
     \<lparr>job_id = ''j1'', job_host = ''h'', job_command = ''make'', job_name = None,
      job_status = Running, job_pid = 42, job_startTime = 500, job_endTime = None,
      job_exitCode = None, job_outputFile = ''/tmp/enrichedlab_job_j1.out''\<rparr>"

definition example_job0 :: job where
  "example_job0 =
     \<lparr>job_id = ''j0'', job_host = ''g'', job_command = ''true'', job_name = None,
      job_status = Completed, job_pid = 7, job_startTime = 100, job_endTime = Some 200,
      job_exitCode = Some 0, job_outputFile = ''/tmp/enrichedlab_job_j0.out''\<rparr>"

definition example_tracker :: "nat tracker" where
  "example_tracker =
     \<lparr>jobs = [(''j0'', example_job0), (''j1'', example_job1)], world = 0, issued = []\<rparr>"

text \<open>
  Notions for the properties of \<open>list\<close>. In a well-formed tracker the keys of the table
  are distinct and each job is stored under its own id, as \<open>this.jobs.set(id, job)\<close> in
  \<open>start\<close> makes it. A remote is reliable when every call resolves. A liveness probe is
  a command that starts with \<open>ps -p\<close>.
\<close>

definition tracker_ok :: "'w tracker \<Rightarrow> bool" where
  "tracker_ok s = (distinct (map fst (jobs s)) \<and> list_all (\<lambda>(k, j). job_id j = k) (jobs s))"

definition reliable :: "'w remote \<Rightarrow> bool" where
  "reliable env = (\<forall>w h c. \<exists>r. fst (rexec env w h c) = Inr r)"

definition is_probe :: "string \<times> string \<Rightarrow> bool" where
  "is_probe hc = (take 6 (snd hc) = ''ps -p '')"

definition picked_jobs :: "string option \<Rightarrow> 'w tracker \<Rightarrow> job list" where
  "picked_jobs hostName s = filter (\<lambda>j. hostFilter hostName (job_host j)) (map snd (jobs s))"

section \<open>Snapshot manager (snapshot-manager.ts)\<close>

text \<open>
  \<open>SnapshotMetadata\<close> and the retention part of the configuration. \<open>ts\<close> is an ISO string
  in the source, read back by \<open>new Date(ts).getTime()\<close>; it is that millisecond reading
  here. The type of a record parsed from the log is whatever string the line holds, so
  besides the three variants there is \<open>OtherType\<close>, for the \<open>default\<close> branch of \<open>restore\<close>.
\<close>

datatype snapshot_type = Sftp | Git | Tar | OtherType string

record snapshot =
  snap_ts :: int
  snap_id :: string
  snap_type :: snapshot_type
  snap_host :: string
  snap_path :: string
  snap_backup :: "string option"
  snap_commit :: "string option"

record retention =
  maxAgeDays :: int
  maxSizeMB :: int
  keepMinCount :: int

text \<open>
  The metadata file is the list of its non-empty lines, each given by what \<open>JSON.parse\<close>
  makes of it: a record, or \<open>None\<close> for a line that does not parse. Every call of \<open>list\<close>
  builds fresh objects, one for each parsed line, and \<open>cleanup\<close> tells them apart by
  identity (\<open>indexOf\<close>); an object is therefore the pair of the number of its line and
  the record.
\<close>

type_synonym snap_obj = "nat \<times> snapshot"

definition parse_lines :: "snapshot option list \<Rightarrow> snap_obj list" where
  "parse_lines lines =
     List.map_filter (\<lambda>(i, l). map_option (\<lambda>s. (i, s)) l) (enumerate 0 lines)"

text \<open>\<open>list(hostName?, limit)\<close>: filter by host, sort by timestamp, latest first (stable), cut.\<close>

definition SnapshotManager_list :: "string option \<Rightarrow> nat \<Rightarrow> snapshot option list \<Rightarrow> snap_obj list" where
  "SnapshotManager_list hostName limit lines =
     take limit
       (sort_key (\<lambda>s. - snap_ts (snd s))
          (filter (\<lambda>s. hostFilter hostName (snap_host (snd s))) (parse_lines lines)))"

text \<open>
  The store: the metadata file, the world behind \<open>connectionManager.exec\<close>, the \<open>exec\<close>
  calls made so far and, for the properties, the objects \<open>removeSnapshot\<close> was called
  with so far. Each operation of the snapshot manager is run from its call to its return
  with no other operation in between.
\<close>

record 'w store =
  metadata :: "snapshot option list"
  remote_world :: 'w
  commands :: "(string \<times> string) list"
  removeCalls :: "snap_obj list"

definition store_exec ::
  "'w remote \<Rightarrow> string \<Rightarrow> string \<Rightarrow> 'w store \<Rightarrow> (error + exec_result) \<times> 'w store" where
  "store_exec env host cmd st =
     (case rexec env (remote_world st) host cmd of
        (r, w') \<Rightarrow> (r, st\<lparr>remote_world := w', commands := commands st @ [(host, cmd)]\<rparr>))"

text \<open>
  \<open>restore\<close> and its three helpers. An optional string field counts as missing when it is
  absent or the empty string (\<open>!snapshot.commit\<close>); \<open>truthy\<close> gives the value of a field
  that is not missing. \<open>dirname\<close> of \<open>node:path\<close> is a parameter.
\<close>

definition truthy :: "string option \<Rightarrow> string option" where
  "truthy f = (case f of None \<Rightarrow> None | Some v \<Rightarrow> if v = [] then None else Some v)"

definition restoreGit :: "'w remote \<Rightarrow> snapshot \<Rightarrow> 'w store \<Rightarrow> (error + string) \<times> 'w store" where
  "restoreGit env snapshot st =
     (case truthy (snap_commit snapshot) of
        None \<Rightarrow> (Inl (CorruptRecord ''Git snapshot missing commit hash''), st)
      | Some commit \<Rightarrow>
          (case store_exec env (snap_host snapshot)
                  (''cd \"'' @ snap_path snapshot @ ''\" && git checkout '' @ commit) st of
             (Inl e, st') \<Rightarrow> (Inl e, st')
           | (Inr r, st') \<Rightarrow>
               (Inr (''Restored git commit '' @ take 8 commit @ '' in '' @ snap_path snapshot),
                st')))"

definition restoreTar ::
  "(string \<Rightarrow> string) \<Rightarrow> 'w remote \<Rightarrow> snapshot \<Rightarrow> 'w store \<Rightarrow> (error + string) \<times> 'w store" where
  "restoreTar dirname env snapshot st =
     (case truthy (snap_backup snapshot) of
        None \<Rightarrow> (Inl (CorruptRecord ''Tar snapshot missing backup path''), st)
      | Some backup \<Rightarrow>
          (case store_exec env (snap_host snapshot)
                  (''tar -xzf \"'' @ backup @ ''\" -C \"'' @ dirname (snap_path snapshot) @ ''\"'')
                  st of
             (Inl e, st') \<Rightarrow> (Inl e, st')
           | (Inr r, st') \<Rightarrow>
               (Inr (''Restored '' @ snap_path snapshot @ '' from tar backup''), st')))"

definition restoreFile :: "'w remote \<Rightarrow> snapshot \<Rightarrow> 'w store \<Rightarrow> (error + string) \<times> 'w store" where
  "restoreFile env snapshot st =
     (case truthy (snap_backup snapshot) of
        None \<Rightarrow> (Inl (CorruptRecord ''File snapshot missing backup path''), st)
      | Some backup \<Rightarrow>
          (case store_exec env (snap_host snapshot)
                  (''cp \"'' @ backup @ ''\" \"'' @ snap_path snapshot @ ''\"'') st of
             (Inl e, st') \<Rightarrow> (Inl e, st')
           | (Inr r, st') \<Rightarrow> (Inr (''Restored file '' @ snap_path snapshot), st')))"

definition restore ::
  "(string \<Rightarrow> string) \<Rightarrow> 'w remote \<Rightarrow> string \<Rightarrow> 'w store \<Rightarrow> (error + string) \<times> 'w store" where
  "restore dirname env snapshotId st =
     (case find (\<lambda>s. snap_id (snd s) = snapshotId)
             (SnapshotManager_list None 1000 (metadata st)) of
        None \<Rightarrow> (Inl (SnapshotNotFound snapshotId), st)
      | Some s \<Rightarrow>
          (case snap_type (snd s) of
             Git \<Rightarrow> restoreGit env (snd s) st
           | Tar \<Rightarrow> restoreTar dirname env (snd s) st
           | Sftp \<Rightarrow> restoreFile env (snd s) st
           | OtherType t \<Rightarrow> (Inl (UnknownSnapshotType t), st)))"

text \<open>
  \<open>removeSnapshot\<close>: the remote backup is deleted when the record has a backup path, and a
  failure of that command is swallowed. The metadata file is not written.
\<close>

definition removeSnapshot :: "'w remote \<Rightarrow> snap_obj \<Rightarrow> 'w store \<Rightarrow> 'w store" where
  "removeSnapshot env snapshot st =
     (let st1 = st\<lparr>removeCalls := removeCalls st @ [snapshot]\<rparr> in
      case truthy (snap_backup (snd snapshot)) of
        None \<Rightarrow> st1
      | Some backup \<Rightarrow>
          snd (store_exec env (snap_host (snd snapshot)) (''rm -rf \"'' @ backup @ ''\"'') st1))"

text \<open>
  \<open>cleanup(hostName?)\<close>. \<open>now\<close> is the reading of \<open>Date.now()\<close> at entry. \<open>byHost\<close> is the
  map built by the first loop; \<open>indexOf\<close> gives \<open>-1\<close> for an object that is not in the
  array.
\<close>

fun indexOf_from :: "int \<Rightarrow> 'a list \<Rightarrow> 'a \<Rightarrow> int" where
  "indexOf_from i [] x = - 1"
| "indexOf_from i (y # ys) x = (if y = x then i else indexOf_from (i + 1) ys x)"

definition indexOf :: "'a list \<Rightarrow> 'a \<Rightarrow> int" where
  "indexOf xs x = indexOf_from 0 xs x"

definition byHost_of :: "snap_obj list \<Rightarrow> (string \<rightharpoonup> snap_obj list)" where
  "byHost_of snapshots =
     fold (\<lambda>s byHost.
             byHost(snap_host (snd s) \<mapsto>
               (case byHost (snap_host (snd s)) of None \<Rightarrow> [] | Some l \<Rightarrow> l) @ [s]))
       snapshots Map.empty"

fun cleanup_loop ::
  "'w remote \<Rightarrow> retention \<Rightarrow> int \<Rightarrow> (string \<rightharpoonup> snap_obj list) \<Rightarrow> snap_obj list \<Rightarrow> nat
     \<Rightarrow> 'w store \<Rightarrow> nat \<times> 'w store" where
  "cleanup_loop env r cutoffDate byHost [] removed st = (removed, st)"
| "cleanup_loop env r cutoffDate byHost (snapshot # rest) removed st =
     (let hostSnapshots = (case byHost (snap_host (snd snapshot)) of None \<Rightarrow> [] | Some l \<Rightarrow> l);
          index = indexOf hostSnapshots snapshot
      in if index < keepMinCount r then cleanup_loop env r cutoffDate byHost rest removed st
         else if snap_ts (snd snapshot) < cutoffDate
         then cleanup_loop env r cutoffDate byHost rest (removed + 1)
                (removeSnapshot env snapshot st)
         else cleanup_loop env r cutoffDate byHost rest removed st)"

definition cleanup ::
  "'w remote \<Rightarrow> retention \<Rightarrow> int \<Rightarrow> string option \<Rightarrow> 'w store \<Rightarrow> nat \<times> 'w store" where
  "cleanup env r now hostName st =
     (let cutoffDate = now - maxAgeDays r * 24 * 60 * 60 * 1000;
          snapshots = SnapshotManager_list hostName 10000 (metadata st)
      in cleanup_loop env r cutoffDate (byHost_of snapshots) snapshots 0 st)"

text \<open>
  Example inputs for the snapshot manager: a log with a line that does not parse, a
  version-control record, an archive record, a single-file record and an archive record
  without its backup path, all older than two weeks at clock reading \<open>2000000000\<close>.
\<close>

definition example_git :: snapshot where
  "example_git =
     \<lparr>snap_ts = 1000, snap_id = ''snap_g'', snap_type = Git, snap_host = ''web'',
      snap_path = ''/srv/app'', snap_backup = None, snap_commit = Some ''0123456789abcdef''\<rparr>"

definition example_tar :: snapshot where
  "example_tar =
     \<lparr>snap_ts = 2000, snap_id = ''snap_t'', snap_type = Tar, snap_host = ''web'',
      snap_path = ''/etc/nginx'', snap_backup = Some ''/b/snapshots/2000/nginx.tar.gz'',
      snap_commit = None\<rparr>"

definition example_sftp :: snapshot where
  "example_sftp =
     \<lparr>snap_ts = 3000, snap_id = ''snap_f'', snap_type = Sftp, snap_host = ''db'',
      snap_path = ''/etc/my.cnf'', snap_backup = Some ''/b/snapshots/3000/my.cnf'',
      snap_commit = None\<rparr>"

definition example_corrupt :: snapshot where
  "example_corrupt =
     \<lparr>snap_ts = 4000, snap_id = ''snap_c'', snap_type = Tar, snap_host = ''db'',
      snap_path = ''/var/lib'', snap_backup = None, snap_commit = None\<rparr>"

definition example_store :: "nat store" where
  "example_store =
     \<lparr>metadata = [Some example_git, None, Some example_tar, Some example_sftp,
                  Some example_corrupt],
      remote_world = 0, commands = [], removeCalls = []\<rparr>"

definition example_retention :: retention where
  "example_retention = \<lparr>maxAgeDays = 14, maxSizeMB = 500, keepMinCount = 1\<rparr>"

text \<open>
  Notions for the properties of \<open>cleanup\<close>: the objects \<open>removeSnapshot\<close> was called with
  between two states of the store, the commands called between them, and the remote
  command that \<open>removeSnapshot\<close> runs for an object (none when the record has no backup
  path).
\<close>

definition removed_between :: "'w store \<Rightarrow> 'w store \<Rightarrow> snap_obj list" where
  "removed_between st st' = drop (length (removeCalls st)) (removeCalls st')"

definition commands_between :: "'w store \<Rightarrow> 'w store \<Rightarrow> (string \<times> string) list" where
  "commands_between st st' = drop (length (commands st)) (commands st')"

definition rm_commands :: "snap_obj \<Rightarrow> (string \<times> string) list" where
  "rm_commands s =
     (case truthy (snap_backup (snd s)) of
        None \<Rightarrow> []
      | Some backup \<Rightarrow> [(snap_host (snd s), ''rm -rf \"'' @ backup @ ''\"'')])"





text \<open>
  The test of the second loop of \<open>cleanup\<close>, for one object: it is kept when its position
  among the loaded objects of its host is below \<open>keepMinCount\<close>, or when it is not older
  than the cutoff. \<open>selected\<close> lists the loaded objects that are not kept.
\<close>

definition keeps :: "retention \<Rightarrow> int \<Rightarrow> (string \<rightharpoonup> snap_obj list) \<Rightarrow> snap_obj \<Rightarrow> bool" where
  "keeps r cutoffDate byHost s =
     (indexOf (case byHost (snap_host (snd s)) of None \<Rightarrow> [] | Some l \<Rightarrow> l) s < keepMinCount r
      \<or> \<not> snap_ts (snd s) < cutoffDate)"

definition selected :: "retention \<Rightarrow> int \<Rightarrow> string option \<Rightarrow> snapshot option list \<Rightarrow> snap_obj list" where
  "selected r now hostName lines =
     filter (\<lambda>s. \<not> keeps r (now - maxAgeDays r * 24 * 60 * 60 * 1000)
                    (byHost_of (SnapshotManager_list hostName 10000 lines)) s)
       (SnapshotManager_list hostName 10000 lines)"

text \<open>
  A schedule in which \<open>kill\<close> and \<open>getStatus\<close> of the same job overlap, each resuming in
  the order in which its command was issued: \<open>kill\<close> runs up to its \<open>await\<close>, \<open>getStatus\<close>
  runs up to its first \<open>await\<close>, \<open>kill\<close> resumes and returns, \<open>getStatus\<close> resumes twice
  and returns. The result is what \<open>kill\<close> returned, the record once \<open>kill\<close> has returned,
  what \<open>getStatus\<close> returned and the record at the end; \<open>None\<close> when an operation returns
  before it is suspended. On the host of \<open>racing_remote\<close> the kill command prints
  \<open>killed\<close>, the liveness probe that follows prints \<open>done\<close>, and the \<open>wait\<close> command prints
  the given text.
\<close>

definition kill_overlapping_getStatus ::
  "'w remote \<Rightarrow> string \<Rightarrow> 'w tracker
     \<Rightarrow> ((error + bool) \<times> job option \<times> (error + job) \<times> job option) option" where
  "kill_overlapping_getStatus env jobId s =
     (case kill_begin env jobId s of
        (Inl res, s1) \<Rightarrow> None
      | (Inr kp, s1) \<Rightarrow>
          (case getStatus_begin env jobId s1 of
             (Inl res, s2) \<Rightarrow> None
           | (Inr gp, s2) \<Rightarrow>
               (case kill_resume env kp s2 of
                  (killed, s3) \<Rightarrow>
                    (case getStatus_afterProbe env gp s3 of
                       (Inl res, s4) \<Rightarrow> None
                     | (Inr gq, s4) \<Rightarrow>
                         (case getStatus_afterWait env gq s4 of
                            (status, s5) \<Rightarrow>
                              Some (killed, map_of (jobs s3) jobId,
                                    status, map_of (jobs s5) jobId))))))"

definition racing_remote :: "string \<Rightarrow> nat remote" where
  "racing_remote waitAnswer =
     \<lparr>rexec = (\<lambda>w h c.
         (Inr \<lparr>stdout = (if take 5 c = ''kill '' then ''killed\<newline>''
                         else if take 5 c = ''wait '' then waitAnswer else ''done\<newline>''),
                stderr = [], exitCode = 0, duration = 1\<rparr>, Suc w)),
      rnow = (\<lambda>w. 1000 + int w)\<rparr>"

text \<open>
  Notions for the properties of the watchdog: the clock reading of an event, the clock
  reading at the end of a list of events, and a watchdog that is armed at a clock
  reading: a callback is set and a timer is pending, due not before that reading and
  not later than one timeout after it.
\<close>

fun event_time :: "hd_event \<Rightarrow> int" where
  "event_time (Activity t) = t"
| "event_time (TimerFires t) = t"

fun end_clock :: "int \<Rightarrow> hd_event list \<Rightarrow> int" where
  "end_clock clock [] = clock"
| "end_clock clock (e # es) = end_clock (event_time e) es"

definition armed :: "int \<Rightarrow> hang_detector \<Rightarrow> bool" where
  "armed clock d =
     (callback d \<and>
      (case timer d of None \<Rightarrow> False | Some due \<Rightarrow> clock \<le> due \<and> due \<le> clock + timeoutMs d))"

text \<open>
  What a refresh makes of a running job, in terms of the answers of the remote: the
  liveness probe of the job resolves in some world; when it prints \<open>done\<close> or nothing the
  \<open>wait\<close> command resolves next and the record is finalized from its output, and
  otherwise the record is as before.
\<close>

definition finalized :: "'w remote \<Rightarrow> job \<Rightarrow> exec_result \<Rightarrow> 'w \<Rightarrow> job" where
  "finalized env j r2 w2 =
     j\<lparr>job_status := (if (case parseInt (trim (stdout r2)) of None \<Rightarrow> 0 | Some n \<Rightarrow> n) = 0
                       then Completed else Failed),
       job_exitCode := Some (case parseInt (trim (stdout r2)) of None \<Rightarrow> 0 | Some n \<Rightarrow> n),
       job_endTime := Some (rnow env w2)\<rparr>"

definition refreshed :: "'w remote \<Rightarrow> job \<Rightarrow> job \<Rightarrow> bool" where
  "refreshed env j j' =
     (\<exists>w r1 w1. rexec env w (job_host j) (checkCmd j) = (Inr r1, w1)
        \<and> (if trim (stdout r1) = ''done'' \<or> trim (stdout r1) = []
            then \<exists>r2 w2. rexec env w1 (job_host j) (waitCmd j) = (Inr r2, w2)
                   \<and> j' = finalized env j r2 w2
            else j' = j))"

text \<open>A tracker with a running job on each of two hosts.\<close>

definition example_job2 :: job where
  "example_job2 =
     \<lparr>job_id = ''j2'', job_host = ''g'', job_command = ''sleep 1'', job_name = None,
      job_status = Running, job_pid = 43, job_startTime = 700, job_endTime = None,
      job_exitCode = None, job_outputFile = ''/tmp/enrichedlab_job_j2.out''\<rparr>"

definition example_tracker2 :: "nat tracker" where
  "example_tracker2 =
     \<lparr>jobs = [(''j1'', example_job1), (''j2'', example_job2)], world = 0, issued = []\<rparr>"

section \<open>Properties of the connection pool\<close>

subsection \<open>Idle eviction\<close>

lemma connections_close:
  "connections (close h p) = filter (\<lambda>(n, e). n \<noteq> h) (connections p)"
proof (cases "map_of (connections p) h")
  case None
  then have "h \<notin> fst ` set (connections p)"
    by (simp add: map_of_eq_None_iff)
  then have "filter (\<lambda>(n, e). n \<noteq> h) (connections p) = connections p"
    by (intro filter_True) force
  with None show ?thesis by (simp add: close_def)
next
  case (Some e)
  then show ?thesis by (simp add: close_def)
qed

lemma map_of_filter_key:
  "map_of (filter (\<lambda>(n, e). n \<noteq> h) xs) k = (if k = h then None else map_of xs k)"
  by (induction xs) auto

lemma sweep_fold_lookup:
  assumes "distinct (map fst ys)"
  shows "map_of (connections (fold (\<lambda>(name, entry) q.
             if now - lastUsed entry > idleTimeout then close name q else q) ys q0)) h
         = (case map_of ys h of
              None \<Rightarrow> map_of (connections q0) h
            | Some e \<Rightarrow> if now - lastUsed e > idleTimeout then None
                        else map_of (connections q0) h)"
  using assms
proof (induction ys arbitrary: q0)
  case Nil
  then show ?case by simp
next
  case (Cons y ys)
  obtain n e where y: "y = (n, e)" by (cases y)
  from Cons.prems y have nin: "n \<notin> fst ` set ys" and d: "distinct (map fst ys)"
    by auto
  from nin have none: "map_of ys n = None"
    by (simp add: map_of_eq_None_iff)
  show ?case
    using Cons.IH [OF d] none
    by (auto simp: y connections_close map_of_filter_key split: option.splits)
qed

text \<open>
  C9. One sweep at clock reading \<open>now\<close>: a pooled session last used more than the idle
  window ago is absent from the pool afterwards, and a session last used within the idle
  window is still in the pool with the same entry.
\<close>

theorem idle_eviction:
  assumes "pool_ok p" and "map_of (connections p) h = Some e"
  shows "(now - lastUsed e > idleTimeout \<longrightarrow>
            map_of (connections (idleCheck now p)) h = None)
       \<and> (now - lastUsed e \<le> idleTimeout \<longrightarrow>
            map_of (connections (idleCheck now p)) h = Some e)"
  using assms sweep_fold_lookup [of "connections p" now p h]
  by (auto simp: idleCheck_def pool_ok_def)

theorem idle_eviction_witness:
  "map_of (connections (idleCheck 400000
      \<lparr>connections = [(''a'', \<lparr>client = 1, lastUsed = 0, connecting = False, ready = True\<rparr>),
                      (''b'', \<lparr>client = 2, lastUsed = 200000, connecting = False, ready = True\<rparr>)],
       ended = []\<rparr>)) ''a'' = None
 \<and> map_of (connections (idleCheck 400000
      \<lparr>connections = [(''a'', \<lparr>client = 1, lastUsed = 0, connecting = False, ready = True\<rparr>),
                      (''b'', \<lparr>client = 2, lastUsed = 200000, connecting = False, ready = True\<rparr>)],
       ended = []\<rparr>)) ''b''
     = Some \<lparr>client = 2, lastUsed = 200000, connecting = False, ready = True\<rparr>"
  using idle_eviction [of "\<lparr>connections = [(''a'', \<lparr>client = 1, lastUsed = 0, connecting = False, ready = True\<rparr>),
                      (''b'', \<lparr>client = 2, lastUsed = 200000, connecting = False, ready = True\<rparr>)],
       ended = []\<rparr>" "''a''" "\<lparr>client = 1, lastUsed = 0, connecting = False, ready = True\<rparr>" 400000]
    idle_eviction [of "\<lparr>connections = [(''a'', \<lparr>client = 1, lastUsed = 0, connecting = False, ready = True\<rparr>),
                      (''b'', \<lparr>client = 2, lastUsed = 200000, connecting = False, ready = True\<rparr>)],
       ended = []\<rparr>" "''b''" "\<lparr>client = 2, lastUsed = 200000, connecting = False, ready = True\<rparr>" 400000]
  by (simp add: pool_ok_def idleTimeout_def)

section \<open>Properties of the command executor\<close>

lemma stream_loop_data:
  "list_all is_data pre \<Longrightarrow>
     stream_loop st out err (pre @ rest) = stream_loop st (out @ stdout_of pre) (err @ stderr_of pre) rest"
proof (induction pre arbitrary: out err)
  case Nil
  then show ?case by simp
next
  case (Cons a pre)
  obtain t ev where a: "a = (t, ev)" by (cases a)
  with Cons show ?case by (cases ev) auto
qed

lemma stream_loop_error:
  "stream_loop st out err es = Some (Inl e) \<longleftrightarrow>
     (\<exists>pre t m post. e = StreamError m \<and> es = pre @ (t, StreamErrorEvent m) # post \<and> list_all is_data pre)"
proof (induction es arbitrary: out err)
  case Nil
  then show ?case by simp
next
  case (Cons a es)
  obtain t ev where a: "a = (t, ev)" by (cases a)
  show ?case
  proof (cases ev)
    case (Data d)
    have "(\<exists>pre t' m post. e = StreamError m \<and> (t, Data d) # es = pre @ (t', StreamErrorEvent m) # post \<and> list_all is_data pre)
       \<longleftrightarrow> (\<exists>pre t' m post. e = StreamError m \<and> es = pre @ (t', StreamErrorEvent m) # post \<and> list_all is_data pre)"
      (is "?L \<longleftrightarrow> ?R")
    proof
      assume ?L
      then obtain pre t' m post where h: "e = StreamError m" "(t, Data d) # es = pre @ (t', StreamErrorEvent m) # post" "list_all is_data pre"
        by blast
      then obtain pre' where "pre = (t, Data d) # pre'" by (cases pre) auto
      with h show ?R by auto
    next
      assume ?R
      then obtain pre t' m post where h: "e = StreamError m" "es = pre @ (t', StreamErrorEvent m) # post" "list_all is_data pre"
        by blast
      then have "(t, Data d) # es = ((t, Data d) # pre) @ (t', StreamErrorEvent m) # post \<and> list_all is_data ((t, Data d) # pre)"
        by simp
      with h(1) show ?L by blast
    qed
    with Cons.IH [of "out @ d" err] a Data show ?thesis by simp
  next
    case (StderrData d)
    have "(\<exists>pre t' m post. e = StreamError m \<and> (t, StderrData d) # es = pre @ (t', StreamErrorEvent m) # post \<and> list_all is_data pre)
       \<longleftrightarrow> (\<exists>pre t' m post. e = StreamError m \<and> es = pre @ (t', StreamErrorEvent m) # post \<and> list_all is_data pre)"
      (is "?L \<longleftrightarrow> ?R")
    proof
      assume ?L
      then obtain pre t' m post where h: "e = StreamError m" "(t, StderrData d) # es = pre @ (t', StreamErrorEvent m) # post" "list_all is_data pre"
        by blast
      then obtain pre' where "pre = (t, StderrData d) # pre'" by (cases pre) auto
      with h show ?R by auto
    next
      assume ?R
      then obtain pre t' m post where h: "e = StreamError m" "es = pre @ (t', StreamErrorEvent m) # post" "list_all is_data pre"
        by blast
      then have "(t, StderrData d) # es = ((t, StderrData d) # pre) @ (t', StreamErrorEvent m) # post \<and> list_all is_data ((t, StderrData d) # pre)"
        by simp
      with h(1) show ?L by blast
    qed
    with Cons.IH [of out "err @ d"] a StderrData show ?thesis by simp
  next
    case (StreamErrorEvent m)
    have "(\<exists>pre t' m' post. e = StreamError m' \<and> (t, StreamErrorEvent m) # es = pre @ (t', StreamErrorEvent m') # post \<and> list_all is_data pre)
       \<longleftrightarrow> e = StreamError m" (is "?L \<longleftrightarrow> ?R")
    proof
      assume ?L
      then obtain pre t' m' post where h: "e = StreamError m'" "(t, StreamErrorEvent m) # es = pre @ (t', StreamErrorEvent m') # post" "list_all is_data pre"
        by blast
      then show ?R by (cases pre) auto
    next
      assume ?R
      then have "e = StreamError m \<and> (t, StreamErrorEvent m) # es = [] @ (t, StreamErrorEvent m) # es \<and> list_all is_data []"
        by simp
      then show ?L by blast
    qed
    with a StreamErrorEvent show ?thesis by auto
  next
    case (Close code)
    have "\<not> (\<exists>pre t' m' post. e = StreamError m' \<and> (t, Close code) # es = pre @ (t', StreamErrorEvent m') # post \<and> list_all is_data pre)"
    proof
      assume "\<exists>pre t' m' post. e = StreamError m' \<and> (t, Close code) # es = pre @ (t', StreamErrorEvent m') # post \<and> list_all is_data pre"
      then obtain pre t' m' post where h: "(t, Close code) # es = pre @ (t', StreamErrorEvent m') # post" "list_all is_data pre"
        by blast
      then show False by (cases pre) auto
    qed
    with a Close show ?thesis by simp
  qed
qed

lemma getConnection_error_kind:
  "fst (getConnection h now ev p) = Inl e \<Longrightarrow> (\<forall>m. e \<noteq> ExecFailed m) \<and> (\<forall>m. e \<noteq> StreamError m)"
  by (auto simp: getConnection_def connect_def split: option.splits if_splits connect_event.splits)

lemma fst_execStreaming: "fst (execStreaming ssh h c now t0 ev p) = fst (exec ssh h c now t0 ev p)"
  by (simp add: execStreaming_def exec_def split: prod.splits sum.splits exec_start.splits)

lemma exec_cases:
  "fst (exec ssh h c now t0 ev p) =
     (case fst (getConnection h now ev p) of
        Inl e \<Rightarrow> Some (Inl e)
      | Inr cl \<Rightarrow> (case ssh cl c of
                     ExecErr m \<Rightarrow> Some (Inl (ExecFailed m))
                   | Stream es \<Rightarrow> stream_loop t0 [] [] es))"
  by (simp add: exec_def split: prod.splits sum.splits exec_start.splits)

text \<open>
  C7. Both \<open>exec\<close> and \<open>execStreaming\<close> settle alike. They fail with \<open>ExecFailed\<close> exactly
  when a session was acquired and ssh2 reports that the command could not be started, and
  with \<open>StreamError\<close> exactly when the stream emits \<open>error\<close> before it closes. When the
  stream closes first, with whatever exit status, zero or not, the call succeeds: the
  result carries that exit status and the standard output and standard error received
  before the close.
\<close>

theorem exec_error_taxonomy:
  "fst (execStreaming ssh h c now t0 ev p) = fst (exec ssh h c now t0 ev p)
 \<and> (fst (exec ssh h c now t0 ev p) = Some (Inl (ExecFailed m)) \<longleftrightarrow>
      (\<exists>cl. fst (getConnection h now ev p) = Inr cl \<and> ssh cl c = ExecErr m))
 \<and> (fst (exec ssh h c now t0 ev p) = Some (Inl (StreamError m)) \<longleftrightarrow>
      (\<exists>cl pre t post. fst (getConnection h now ev p) = Inr cl
          \<and> ssh cl c = Stream (pre @ (t, StreamErrorEvent m) # post) \<and> list_all is_data pre))
 \<and> (fst (getConnection h now ev p) = Inr cl
      \<and> ssh cl c = Stream (pre @ (t, Close code) # post) \<and> list_all is_data pre \<longrightarrow>
      fst (exec ssh h c now t0 ev p)
        = Some (Inr \<lparr>stdout = stdout_of pre, stderr = stderr_of pre, exitCode = code,
                     duration = t - t0\<rparr>))"
proof (intro conjI)
  show "fst (execStreaming ssh h c now t0 ev p) = fst (exec ssh h c now t0 ev p)"
    by (rule fst_execStreaming)
next
  show "fst (exec ssh h c now t0 ev p) = Some (Inl (ExecFailed m)) \<longleftrightarrow>
      (\<exists>cl. fst (getConnection h now ev p) = Inr cl \<and> ssh cl c = ExecErr m)"
  proof (cases "fst (getConnection h now ev p)")
    case (Inl e)
    with getConnection_error_kind [OF Inl] show ?thesis
      by (simp add: exec_cases)
  next
    case (Inr cl)
    show ?thesis
    proof (cases "ssh cl c")
      case (ExecErr m')
      with Inr show ?thesis by (simp add: exec_cases)
    next
      case (Stream es)
      have "stream_loop t0 [] [] es \<noteq> Some (Inl (ExecFailed m))"
        using stream_loop_error [of t0 "[]" "[]" es "ExecFailed m"] by auto
      with Inr Stream show ?thesis by (simp add: exec_cases)
    qed
  qed
next
  show "fst (exec ssh h c now t0 ev p) = Some (Inl (StreamError m)) \<longleftrightarrow>
      (\<exists>cl pre t post. fst (getConnection h now ev p) = Inr cl
          \<and> ssh cl c = Stream (pre @ (t, StreamErrorEvent m) # post) \<and> list_all is_data pre)"
  proof (cases "fst (getConnection h now ev p)")
    case (Inl e)
    with getConnection_error_kind [OF Inl] show ?thesis
      by (simp add: exec_cases)
  next
    case (Inr cl)
    show ?thesis
    proof (cases "ssh cl c")
      case (ExecErr m')
      with Inr show ?thesis by (simp add: exec_cases)
    next
      case (Stream es)
      with Inr show ?thesis
        using stream_loop_error [of t0 "[]" "[]" es "StreamError m"]
        by (simp add: exec_cases)
    qed
  qed
next
  show "fst (getConnection h now ev p) = Inr cl
      \<and> ssh cl c = Stream (pre @ (t, Close code) # post) \<and> list_all is_data pre \<longrightarrow>
      fst (exec ssh h c now t0 ev p)
        = Some (Inr \<lparr>stdout = stdout_of pre, stderr = stderr_of pre, exitCode = code,
                     duration = t - t0\<rparr>)"
    by (simp add: exec_cases stream_loop_data)
qed

theorem exec_error_taxonomy_witness:
  "fst (exec (\<lambda>cl cmd. Stream [(5, Data ''no''), (6, StderrData ''x''), (7, Close 2), (8, Data ''late'')])
         ''h'' ''false'' 0 1 (ReadyEvent 1 0) \<lparr>connections = [], ended = []\<rparr>)
     = Some (Inr \<lparr>stdout = ''no'', stderr = ''x'', exitCode = 2, duration = 6\<rparr>)
 \<and> fst (execStreaming (\<lambda>cl cmd. Stream [(5, Data ''no''), (6, StderrData ''x''), (7, Close 2), (8, Data ''late'')])
         ''h'' ''false'' 0 1 (ReadyEvent 1 0) \<lparr>connections = [], ended = []\<rparr>)
     = Some (Inr \<lparr>stdout = ''no'', stderr = ''x'', exitCode = 2, duration = 6\<rparr>)"
  using exec_error_taxonomy [of "\<lambda>cl cmd. Stream [(5, Data ''no''), (6, StderrData ''x''), (7, Close 2), (8, Data ''late'')]"
      "''h''" "''false''" 0 1 "ReadyEvent 1 0" "\<lparr>connections = [], ended = []\<rparr>" "''m''" 1
      "[(5, Data ''no''), (6, StderrData ''x'')]" 7 2 "[(8, Data ''late'')]"]
  by (simp add: getConnection_def connect_def)

section \<open>Properties of the hang watchdog\<close>

lemma fst_hd_run_Cons:
  "fst (hd_run d (e # es)) = fst (hd_step d e) @ fst (hd_run (snd (hd_step d e)) es)"
  by (simp split: prod.splits)

lemma checks_silent:
  "alertSent d \<or> \<not> callback d \<Longrightarrow> fst (hd_run d (map TimerFires ts)) = []"
proof (induction ts arbitrary: d)
  case Nil
  then show ?case by simp
next
  case (Cons t ts)
  from Cons.prems have c: "checkHang t d = ([], scheduleCheck t d)"
    by (auto simp: checkHang_def Let_def)
  from Cons.prems have "alertSent (scheduleCheck t d) \<or> \<not> callback (scheduleCheck t d)"
    by (simp add: scheduleCheck_def)
  from Cons.IH [OF this] c show ?case
    by (simp add: fst_hd_run_Cons del: hd_run.simps)
qed

lemma checks_quiet:
  assumes "callback d" and "\<not> alertSent d" and "lastActivity d = a" and "timeoutMs d = T"
  shows "fst (hd_run d (map TimerFires ts))
       = (case find (\<lambda>t. t - a \<ge> T) ts of
            None \<Rightarrow> []
          | Some t \<Rightarrow> [hang_message (t - a)])"
  using assms
proof (induction ts arbitrary: d)
  case Nil
  then show ?case by simp
next
  case (Cons t ts)
  show ?case
  proof (cases "t - a \<ge> T")
    case True
    with Cons.prems have c: "checkHang t d
        = ([hang_message (t - a)], scheduleCheck t (d\<lparr>alertSent := True\<rparr>))"
      by (simp add: checkHang_def Let_def)
    have "alertSent (scheduleCheck t (d\<lparr>alertSent := True\<rparr>))"
      by (simp add: scheduleCheck_def)
    then have "fst (hd_run (scheduleCheck t (d\<lparr>alertSent := True\<rparr>)) (map TimerFires ts)) = []"
      by (intro checks_silent) simp
    with c True show ?thesis
      by (simp add: fst_hd_run_Cons del: hd_run.simps)
  next
    case False
    with Cons.prems have c: "checkHang t d = ([], scheduleCheck t d)"
      by (simp add: checkHang_def Let_def)
    from Cons.prems have "callback (scheduleCheck t d)" "\<not> alertSent (scheduleCheck t d)"
      "lastActivity (scheduleCheck t d) = a" "timeoutMs (scheduleCheck t d) = T"
      by (simp_all add: scheduleCheck_def)
    from Cons.IH [OF this] c False show ?thesis
      by (simp add: fst_hd_run_Cons del: hd_run.simps)
  qed
qed

lemma snd_hd_run_Cons: "snd (hd_run d (e # es)) = snd (hd_run (snd (hd_step d e)) es)"
  by (simp split: prod.splits)

lemma hd_run_append:
  "fst (hd_run d (es @ fs)) = fst (hd_run d es) @ fst (hd_run (snd (hd_run d es)) fs)
 \<and> snd (hd_run d (es @ fs)) = snd (hd_run (snd (hd_run d es)) fs)"
proof (induction es arbitrary: d)
  case Nil
  then show ?case by simp
next
  case (Cons e es)
  from Cons [of "snd (hd_step d e)"] show ?case
    by (simp add: fst_hd_run_Cons snd_hd_run_Cons del: hd_run.simps)
qed

lemma on_time_append:
  "on_time c d (es @ fs)
     \<longleftrightarrow> on_time c d es \<and> on_time (end_clock c es) (snd (hd_run d es)) fs"
proof (induction es arbitrary: c d)
  case Nil
  then show ?case by simp
next
  case (Cons e es)
  show ?case
  proof (cases e)
    case (Activity t)
    with Cons [of t "onActivity t d"] show ?thesis
      by (simp add: snd_hd_run_Cons del: hd_run.simps)
  next
    case (TimerFires t)
    with Cons [of t "snd (checkHang t d)"] show ?thesis
      by (simp add: snd_hd_run_Cons del: hd_run.simps)
  qed
qed

lemma hd_step_timeoutMs: "timeoutMs (snd (hd_step d e)) = timeoutMs d"
  by (cases e) (simp_all add: onActivity_def checkHang_def scheduleCheck_def Let_def)

lemma hd_run_timeoutMs: "timeoutMs (snd (hd_run d es)) = timeoutMs d"
  by (induction es arbitrary: d)
    (simp_all add: snd_hd_run_Cons hd_step_timeoutMs del: hd_run.simps, simp)

lemma armed_step:
  assumes "armed c d" and "on_time c d [e]"
  shows "armed (event_time e) (snd (hd_step d e))"
proof (cases e)
  case (Activity t)
  with assms show ?thesis
    by (auto simp: armed_def onActivity_def split: option.splits)
next
  case (TimerFires t)
  with assms show ?thesis
    by (auto simp: armed_def checkHang_def scheduleCheck_def Let_def split: option.splits)
qed

lemma armed_run:
  assumes "armed c d" and "on_time c d es"
  shows "armed (end_clock c es) (snd (hd_run d es))"
  using assms
proof (induction es arbitrary: c d)
  case Nil
  then show ?case by simp
next
  case (Cons e es)
  from Cons.prems(2) have one: "on_time c d [e]"
    and rest: "on_time (event_time e) (snd (hd_step d e)) es"
    by (cases e; simp)+
  from Cons.IH [OF armed_step [OF Cons.prems(1) one] rest] show ?case
    by (simp add: snd_hd_run_Cons del: hd_run.simps)
qed

lemma armed_start: "0 \<le> timeoutMs d \<Longrightarrow> armed t0 (start t0 d)"
  by (simp add: armed_def start_def scheduleCheck_def)

lemma last_check_late:
  assumes "timer d = Some due" and "on_time c d (map TimerFires ts @ [Activity b])"
  shows "(ts = [] \<and> b \<le> due) \<or> (ts \<noteq> [] \<and> b \<le> last ts + timeoutMs d)"
  using assms
proof (induction ts arbitrary: c d due)
  case Nil
  then show ?case by simp
next
  case (Cons t ts)
  let ?d1 = "snd (checkHang t d)"
  from Cons.prems have t: "t = due" and rest: "on_time t ?d1 (map TimerFires ts @ [Activity b])"
    by simp_all
  have tm: "timer ?d1 = Some (t + timeoutMs d)" and T: "timeoutMs ?d1 = timeoutMs d"
    by (simp_all add: checkHang_def scheduleCheck_def Let_def)
  from Cons.IH [OF tm rest] T show ?case by auto
qed

lemma silence_alerts:
  assumes T: "0 < timeoutMs d" and arm: "armed a d"
    and quiet: "lastActivity d = a" "\<not> alertSent d"
    and tl: "on_time a d (map TimerFires ts @ [Activity b])"
    and long: "2 * timeoutMs d \<le> b - a"
  shows "length (fst (hd_run d (map TimerFires ts))) = 1"
proof -
  from arm obtain due where due: "timer d = Some due" "a \<le> due" "due \<le> a + timeoutMs d"
    and cb: "callback d"
    by (auto simp: armed_def split: option.splits)
  from last_check_late [OF due(1) tl] due(3) T long
  have ne: "ts \<noteq> []" and late: "b \<le> last ts + timeoutMs d" by auto
  then have "last ts \<in> set ts" "timeoutMs d \<le> last ts - a"
    using long by auto
  then have "find (\<lambda>t. t - a \<ge> timeoutMs d) ts \<noteq> None"
    unfolding find_None_iff by blast
  then obtain t where "find (\<lambda>t. t - a \<ge> timeoutMs d) ts = Some t" by auto
  with checks_quiet [OF cb quiet(2) quiet(1) refl, of ts] show ?thesis by simp
qed

lemma end_clock_snoc: "end_clock c (es @ [e]) = event_time e"
  by (induction es arbitrary: c) simp_all

lemma after_activity:
  "lastActivity (snd (hd_run d (pre @ [Activity a]))) = a
 \<and> \<not> alertSent (snd (hd_run d (pre @ [Activity a])))"
  using hd_run_append [of d pre "[Activity a]"] by (simp add: onActivity_def)

lemma start_facts:
  "timeoutMs (start t0 d) = timeoutMs d \<and> lastActivity (start t0 d) = t0
 \<and> \<not> alertSent (start t0 d) \<and> timer (start t0 d) = Some (t0 + timeoutMs d)"
  by (simp add: start_def scheduleCheck_def)

lemma silence_after_start:
  assumes "0 < timeoutMs d" and "on_time a (start a d) (map TimerFires ts @ [Activity b])"
    and "2 * timeoutMs d \<le> b - a"
  shows "length (fst (hd_run (start a d) (map TimerFires ts))) = 1"
proof (rule silence_alerts [where a = a and b = b])
  show "0 < timeoutMs (start a d)" using assms(1) by (simp add: start_facts)
  show "armed a (start a d)" using assms(1) by (intro armed_start) simp
  show "lastActivity (start a d) = a" by (simp add: start_facts)
  show "\<not> alertSent (start a d)" by (simp add: start_facts)
  show "on_time a (start a d) (map TimerFires ts @ [Activity b])" by (rule assms(2))
  show "2 * timeoutMs (start a d) \<le> b - a" using assms(3) by (simp add: start_facts)
qed

lemma silence_after_activity:
  assumes T: "0 < timeoutMs d"
    and tl: "on_time t0 (start t0 d) (pre @ Activity a # map TimerFires ts @ [Activity b])"
    and long: "2 * timeoutMs d \<le> b - a"
  shows "length (fst (hd_run (snd (hd_run (start t0 d) (pre @ [Activity a])))
           (map TimerFires ts))) = 1"
proof -
  let ?d1 = "snd (hd_run (start t0 d) (pre @ [Activity a]))"
  have split: "pre @ Activity a # map TimerFires ts @ [Activity b]
      = (pre @ [Activity a]) @ (map TimerFires ts @ [Activity b])"
    by simp
  from tl have 1: "on_time t0 (start t0 d) (pre @ [Activity a])"
    and 2: "on_time a ?d1 (map TimerFires ts @ [Activity b])"
    unfolding split on_time_append [of t0 "start t0 d" "pre @ [Activity a]"] end_clock_snoc
    by simp_all
  have "armed t0 (start t0 d)" using T by (intro armed_start) simp
  from armed_run [OF this 1] have arm: "armed a ?d1"
    by (simp only: end_clock_snoc event_time.simps)
  have Tm: "timeoutMs ?d1 = timeoutMs d"
    by (simp add: hd_run_timeoutMs start_facts)
  show ?thesis
  proof (rule silence_alerts [where a = a and b = b])
    show "0 < timeoutMs ?d1" using T by (simp only: Tm)
    show "armed a ?d1" by (rule arm)
    show "lastActivity ?d1 = a" using after_activity [of "start t0 d" pre a] by simp
    show "\<not> alertSent ?d1" using after_activity [of "start t0 d" pre a] by simp
    show "on_time a ?d1 (map TimerFires ts @ [Activity b])" by (rule 2)
    show "2 * timeoutMs ?d1 \<le> b - a" using long by (simp only: Tm)
  qed
qed

text \<open>
  C6, as the code has it. \<open>start\<close> arms the timer for one \<open>timeoutMs\<close> later, each check
  re-arms it for one \<open>timeoutMs\<close> after the check, and activity does not move it. After
  \<open>start\<close>, or after an activity signal while a callback is set, at clock reading \<open>a\<close>,
  the checks that follow without further activity pass exactly one alert to the
  callback: at the first check that takes place \<open>timeoutMs\<close> or more after \<open>a\<close>, with the
  idle time of that moment in rounded seconds. When no check takes place that late before
  the next activity signal, there is no alert. From any state, checks without activity
  in between give at most one alert. On a timeline where the timer fires exactly when
  it is due, a silence of two timeouts or more, from \<open>start\<close> or from an activity signal
  to the next activity signal, gives exactly one alert.
\<close>

theorem hang_alert_once:
  "fst (hd_run (start a d) (map TimerFires ts))
     = (case find (\<lambda>t. t - a \<ge> timeoutMs d) ts of
          None \<Rightarrow> [] | Some t \<Rightarrow> [hang_message (t - a)])
 \<and> (callback d \<longrightarrow>
      fst (hd_run (onActivity a d) (map TimerFires ts))
        = (case find (\<lambda>t. t - a \<ge> timeoutMs d) ts of
             None \<Rightarrow> [] | Some t \<Rightarrow> [hang_message (t - a)]))
 \<and> length (fst (hd_run d (map TimerFires ts))) \<le> 1
 \<and> timer (snd (checkHang t d)) = Some (t + timeoutMs d)
 \<and> timer (onActivity t d) = timer d
 \<and> timer (start a d) = Some (a + timeoutMs d)
 \<and> (0 < timeoutMs d \<and> on_time a (start a d) (map TimerFires ts @ [Activity b])
      \<and> 2 * timeoutMs d \<le> b - a \<longrightarrow>
      length (fst (hd_run (start a d) (map TimerFires ts))) = 1)
 \<and> (0 < timeoutMs d
      \<and> on_time t0 (start t0 d) (pre @ Activity a # map TimerFires ts @ [Activity b])
      \<and> 2 * timeoutMs d \<le> b - a \<longrightarrow>
      length (fst (hd_run (snd (hd_run (start t0 d) (pre @ [Activity a])))
                (map TimerFires ts))) = 1)"
proof (intro conjI impI)
  show "fst (hd_run (start a d) (map TimerFires ts))
     = (case find (\<lambda>t. t - a \<ge> timeoutMs d) ts of
          None \<Rightarrow> [] | Some t \<Rightarrow> [hang_message (t - a)])"
    by (rule checks_quiet) (simp_all add: start_def scheduleCheck_def)
next
  assume "callback d"
  then show "fst (hd_run (onActivity a d) (map TimerFires ts))
        = (case find (\<lambda>t. t - a \<ge> timeoutMs d) ts of
             None \<Rightarrow> [] | Some t \<Rightarrow> [hang_message (t - a)])"
    by (intro checks_quiet) (simp_all add: onActivity_def)
next
  show "length (fst (hd_run d (map TimerFires ts))) \<le> 1"
  proof (cases "alertSent d \<or> \<not> callback d")
    case True
    then show ?thesis using checks_silent [of d ts] by simp
  next
    case False
    then show ?thesis
      using checks_quiet [of d "lastActivity d" "timeoutMs d" ts]
      by (simp split: option.splits)
  qed
next
  show "timer (snd (checkHang t d)) = Some (t + timeoutMs d)"
    by (simp add: checkHang_def scheduleCheck_def Let_def)
next
  show "timer (onActivity t d) = timer d"
    by (simp add: onActivity_def)
next
  show "timer (start a d) = Some (a + timeoutMs d)"
    by (simp add: start_facts)
next
  assume "0 < timeoutMs d \<and> on_time a (start a d) (map TimerFires ts @ [Activity b])
      \<and> 2 * timeoutMs d \<le> b - a"
  then show "length (fst (hd_run (start a d) (map TimerFires ts))) = 1"
    by (intro silence_after_start [where b = b]) simp_all
next
  assume "0 < timeoutMs d
      \<and> on_time t0 (start t0 d) (pre @ Activity a # map TimerFires ts @ [Activity b])
      \<and> 2 * timeoutMs d \<le> b - a"
  then show "length (fst (hd_run (snd (hd_run (start t0 d) (pre @ [Activity a])))
                (map TimerFires ts))) = 1"
    by (intro silence_after_activity [where b = b]) simp_all
qed

text \<open>
  C6 as stated fails. With a timeout of 1000 ms, a watchdog started at 0 sees output at
  500, its timer fire at 1000 (500 ms idle: no alert; re-armed for 2000) and output again
  at 1600: 1100 ms of silence between two activity signals, and no alert.
\<close>

theorem hang_watchdog_counterexample:
  "on_time 0 (start 0 (HangDetector 1000 0)) [Activity 500, TimerFires 1000, Activity 1600]
 \<and> 1600 - 500 \<ge> timeoutMs (start 0 (HangDetector 1000 0))
 \<and> fst (hd_run (start 0 (HangDetector 1000 0)) [Activity 500, TimerFires 1000, Activity 1600]) = []"
  by (simp add: start_def HangDetector_def scheduleCheck_def onActivity_def checkHang_def)

theorem hang_alert_once_witness:
  "fst (hd_run (onActivity 500 (start 0 (HangDetector 1000 0))) (map TimerFires [1000, 2000, 3000]))
     = [''No output for 2s - command may be hung or waiting for input'']
 \<and> length (fst (hd_run (snd (hd_run (start 0 (HangDetector 1000 0)) ([] @ [Activity 500])))
              (map TimerFires [1000, 2000]))) = 1
 \<and> length (fst (hd_run (start 0 (HangDetector 1000 0)) (map TimerFires [1000, 2000]))) = 1"
proof -
  have c: "callback (start 0 (HangDetector 1000 0))"
    and T: "timeoutMs (start 0 (HangDetector 1000 0)) = 1000"
    by (simp_all add: start_def scheduleCheck_def HangDetector_def)
  have "fst (hd_run (onActivity 500 (start 0 (HangDetector 1000 0))) (map TimerFires [1000, 2000, 3000]))
      = [hang_message 1500]"
    using hang_alert_once [where a = 500 and d = "start 0 (HangDetector 1000 0)"
        and ts = "[1000, 2000, 3000]", THEN conjunct2, THEN conjunct1] c
    by (simp add: T)
  moreover have "hang_message 1500 = ''No output for 2s - command may be hung or waiting for input''"
    by code_simp
  ultimately have 1: "fst (hd_run (onActivity 500 (start 0 (HangDetector 1000 0)))
      (map TimerFires [1000, 2000, 3000]))
     = [''No output for 2s - command may be hung or waiting for input'']"
    by simp
  have h2: "0 < timeoutMs (HangDetector 1000 0)
      \<and> on_time 0 (start 0 (HangDetector 1000 0))
           ([] @ Activity 500 # map TimerFires [1000, 2000] @ [Activity 2600])
      \<and> 2 * timeoutMs (HangDetector 1000 0) \<le> 2600 - 500"
    by (simp add: start_def HangDetector_def scheduleCheck_def onActivity_def checkHang_def)
  have 2: "length (fst (hd_run (snd (hd_run (start 0 (HangDetector 1000 0)) ([] @ [Activity 500])))
              (map TimerFires [1000, 2000]))) = 1"
    by (rule mp [OF hang_alert_once [where a = 500 and d = "HangDetector 1000 0"
            and ts = "[1000, 2000]" and b = 2600 and ?t0.0 = 0 and pre = "[]",
            THEN conjunct2, THEN conjunct2, THEN conjunct2, THEN conjunct2, THEN conjunct2,
            THEN conjunct2, THEN conjunct2] h2])
  have h3: "0 < timeoutMs (HangDetector 1000 0)
      \<and> on_time 0 (start 0 (HangDetector 1000 0)) (map TimerFires [1000, 2000] @ [Activity 2100])
      \<and> 2 * timeoutMs (HangDetector 1000 0) \<le> 2100 - 0"
    by (simp add: start_def HangDetector_def scheduleCheck_def onActivity_def checkHang_def)
  have 3: "length (fst (hd_run (start 0 (HangDetector 1000 0)) (map TimerFires [1000, 2000]))) = 1"
    by (rule mp [OF hang_alert_once [where a = 0 and d = "HangDetector 1000 0"
            and ts = "[1000, 2000]" and b = 2100,
            THEN conjunct2, THEN conjunct2, THEN conjunct2, THEN conjunct2, THEN conjunct2,
            THEN conjunct2, THEN conjunct1] h3])
  from 1 2 3 show ?thesis by (intro conjI)
qed

section \<open>Properties of the job tracker\<close>

lemma map_of_map_set:
  "map_of (map_set k v xs) k' = (if k' = k then Some v else map_of xs k')"
proof (cases "k \<in> fst ` set xs")
  case True
  have "map_of (map (\<lambda>(k', v'). if k' = k then (k', v) else (k', v')) xs) k'
      = (if k' = k then (if k \<in> fst ` set xs then Some v else None) else map_of xs k')"
    by (induction xs) (auto simp: rev_image_eqI)
  with True show ?thesis by (simp add: map_set_def)
next
  case False
  then have "map_of xs k = None" by (simp add: map_of_eq_None_iff)
  with False show ?thesis by (auto simp: map_set_def map_add_def split: option.splits)
qed

lemma run_exec_jobs: "jobs (snd (run_exec env h c s)) = jobs s"
  by (simp add: run_exec_def split: prod.splits)

lemma getStatus_unfold:
  "getStatus env jobId s =
     (case map_of (jobs s) jobId of
        None \<Rightarrow> (Inl (JobNotFound jobId), s)
      | Some job \<Rightarrow>
          if job_status job = Running then
            (case run_exec env (job_host job) (checkCmd job) s of
               (Inl e, s1) \<Rightarrow> (Inl e, s1)
             | (Inr result, s1) \<Rightarrow>
                 if trim (stdout result) = ''done'' \<or> trim (stdout result) = [] then
                   (case run_exec env (job_host job) (waitCmd job) s1 of
                      (Inl e, s2) \<Rightarrow> (Inl e, s2)
                    | (Inr exitResult, s2) \<Rightarrow>
                        (let exitCode = (case parseInt (trim (stdout exitResult)) of
                                           None \<Rightarrow> 0 | Some n \<Rightarrow> n);
                             job' = job\<lparr>job_status := (if exitCode = 0 then Completed else Failed),
                                        job_exitCode := Some exitCode,
                                        job_endTime := Some (rnow env (world s2))\<rparr>
                         in (Inr job', s2\<lparr>jobs := map_set jobId job' (jobs s2)\<rparr>)))
                 else (Inr job, s1))
          else (Inr job, s))"
proof (cases "map_of (jobs s) jobId")
  case None
  then show ?thesis by (simp add: getStatus_def getStatus_begin_def)
next
  case (Some job)
  then have key: "jobId \<in> fst ` set (jobs s)"
    by (metis map_of_eq_None_iff option.distinct(1))
  show ?thesis
    using Some key
    by (auto simp: getStatus_def getStatus_begin_def getStatus_afterProbe_def
        getStatus_afterWait_def object_at_def write_object_def run_exec_def Let_def
        split: prod.splits sum.splits)
qed

lemma kill_unfold:
  "kill env jobId s =
     (case map_of (jobs s) jobId of
        None \<Rightarrow> (Inl (JobNotFound jobId), s)
      | Some job \<Rightarrow>
          if job_status job \<noteq> Running then (Inr False, s)
          else
            (case run_exec env (job_host job) (killCmd job) s of
               (Inl e, s1) \<Rightarrow> (Inl e, s1)
             | (Inr result, s1) \<Rightarrow>
                 if trim (stdout result) = ''killed'' then
                   (let job' = job\<lparr>job_status := Failed,
                                     job_exitCode := Some (- 9),
                                     job_endTime := Some (rnow env (world s1))\<rparr>
                    in (Inr True, s1\<lparr>jobs := map_set jobId job' (jobs s1)\<rparr>))
                 else (Inr False, s1)))"
proof (cases "map_of (jobs s) jobId")
  case None
  then show ?thesis by (simp add: kill_def kill_begin_def)
next
  case (Some job)
  then have key: "jobId \<in> fst ` set (jobs s)"
    by (metis map_of_eq_None_iff option.distinct(1))
  show ?thesis
    using Some key
    by (auto simp: kill_def kill_begin_def kill_resume_def object_at_def write_object_def
        run_exec_def Let_def split: prod.splits sum.splits)
qed

lemma getStatus_other:
  "k \<noteq> jid \<Longrightarrow> map_of (jobs (snd (getStatus env jid s))) k = map_of (jobs s) k"
  by (auto simp: getStatus_unfold run_exec_def Let_def map_of_map_set
      split: option.splits prod.splits sum.splits if_splits)

lemma getStatus_terminal:
  "map_of (jobs s) jid = Some job \<Longrightarrow> job_status job \<noteq> Running \<Longrightarrow>
     getStatus env jid s = (Inr job, s)"
  by (simp add: getStatus_unfold)

lemma getStatus_keeps_terminal:
  assumes "map_of (jobs s) k = Some job" and "job_status job \<noteq> Running"
  shows "map_of (jobs (snd (getStatus env jid s))) k = Some job"
proof (cases "k = jid")
  case True
  with assms show ?thesis by (simp add: getStatus_terminal)
next
  case False
  with assms show ?thesis by (simp add: getStatus_other)
qed

lemma kill_other:
  "k \<noteq> jid \<Longrightarrow> map_of (jobs (snd (kill env jid s))) k = map_of (jobs s) k"
  by (auto simp: kill_unfold run_exec_def Let_def map_of_map_set
      split: option.splits prod.splits sum.splits if_splits)

lemma kill_terminal:
  "map_of (jobs s) jid = Some job \<Longrightarrow> job_status job \<noteq> Running \<Longrightarrow>
     kill env jid s = (Inr False, s)"
  by (simp add: kill_unfold)

lemma kill_keeps_terminal:
  assumes "map_of (jobs s) k = Some job" and "job_status job \<noteq> Running"
  shows "map_of (jobs (snd (kill env jid s))) k = Some job"
proof (cases "k = jid")
  case True
  with assms show ?thesis by (simp add: kill_terminal)
next
  case False
  with assms show ?thesis by (simp add: kill_other)
qed

lemma refresh_loop_keeps_terminal:
  assumes "map_of (jobs s) k = Some job" and "job_status job \<noteq> Running"
  shows "map_of (jobs (snd (refresh_loop env js s))) k = Some job"
  using assms
proof (induction js arbitrary: s)
  case Nil
  then show ?case by simp
next
  case (Cons j js)
  show ?case
  proof (cases "job_status (current s j) = Running")
    case False
    with Cons show ?thesis by simp
  next
    case True
    obtain r s' where g: "getStatus env (job_id j) s = (r, s')"
      by (cases "getStatus env (job_id j) s")
    have keep: "map_of (jobs s') k = Some job"
      using getStatus_keeps_terminal [OF Cons.prems, of env "job_id j"] g by simp
    show ?thesis
    proof (cases r)
      case (Inl e)
      with True g keep show ?thesis by simp
    next
      case (Inr j')
      with True g Cons.IH [OF keep Cons.prems(2)] show ?thesis by simp
    qed
  qed
qed

lemma list_keeps_terminal:
  assumes "map_of (jobs s) k = Some job" and "job_status job \<noteq> Running"
  shows "map_of (jobs (snd (JobTracker_list env hostName s))) k = Some job"
proof -
  let ?picked = "filter (\<lambda>j. hostFilter hostName (job_host j)) (map snd (jobs s))"
  have "snd (JobTracker_list env hostName s) = snd (refresh_loop env ?picked s)"
    by (simp add: JobTracker_list_def Let_def split: prod.splits sum.splits)
  with refresh_loop_keeps_terminal [OF assms, of env ?picked] show ?thesis by simp
qed

lemma getStatus_finalizes:
  assumes "map_of (jobs s) jid = Some job" and "job_status job = Running"
    and "rexec env (world s) (job_host job) (checkCmd job) = (Inr r1, w1)"
    and "trim (stdout r1) = ''done'' \<or> trim (stdout r1) = []"
    and "rexec env w1 (job_host job) (waitCmd job) = (Inr r2, w2)"
    and "code = (case parseInt (trim (stdout r2)) of None \<Rightarrow> 0 | Some n \<Rightarrow> n)"
    and "job' = job\<lparr>job_status := (if code = 0 then Completed else Failed),
                     job_exitCode := Some code, job_endTime := Some (rnow env w2)\<rparr>"
  shows "fst (getStatus env jid s) = Inr job'"
    and "map_of (jobs (snd (getStatus env jid s))) jid = Some job'"
    and "issued (snd (getStatus env jid s))
           = issued s @ [(job_host job, checkCmd job), (job_host job, waitCmd job)]"
  using assms
  by (auto simp: getStatus_unfold run_exec_def Let_def map_of_map_set)

text \<open>
  Operations that do not overlap. \<open>getStatus\<close>, run with no other operation in between,
  on a running job whose liveness probe prints \<open>done\<close> or nothing runs
  \<open>wait <pid> 2>/dev/null; echo $?\<close>, reads the exit status from its output (0 when the
  output is not a number) and finalizes the record: \<open>Completed\<close> for 0, \<open>Failed\<close> otherwise,
  with the exit code and the end time set. A record that is \<open>Completed\<close> or \<open>Failed\<close> when
  such a run of \<open>getStatus\<close>, \<open>kill\<close> or \<open>list\<close> begins is left as it is, in every field.
\<close>

lemma uninterrupted_job_state_machine:
  "(map_of (jobs s) jid = Some job \<and> job_status job = Running
      \<and> rexec env (world s) (job_host job) (checkCmd job) = (Inr r1, w1)
      \<and> (trim (stdout r1) = ''done'' \<or> trim (stdout r1) = [])
      \<and> rexec env w1 (job_host job) (waitCmd job) = (Inr r2, w2)
      \<and> code = (case parseInt (trim (stdout r2)) of None \<Rightarrow> 0 | Some n \<Rightarrow> n)
    \<longrightarrow> fst (getStatus env jid s)
          = Inr (job\<lparr>job_status := (if code = 0 then Completed else Failed),
                      job_exitCode := Some code, job_endTime := Some (rnow env w2)\<rparr>)
      \<and> map_of (jobs (snd (getStatus env jid s))) jid
          = Some (job\<lparr>job_status := (if code = 0 then Completed else Failed),
                       job_exitCode := Some code, job_endTime := Some (rnow env w2)\<rparr>)
      \<and> issued (snd (getStatus env jid s))
          = issued s @ [(job_host job, checkCmd job), (job_host job, waitCmd job)])
 \<and> (map_of (jobs s) k = Some done_job \<and> job_status done_job \<noteq> Running
    \<longrightarrow> map_of (jobs (snd (getStatus env jid s))) k = Some done_job
      \<and> map_of (jobs (snd (kill env jid s))) k = Some done_job
      \<and> map_of (jobs (snd (JobTracker_list env hostName s))) k = Some done_job)"
proof (intro conjI impI)
  assume a: "map_of (jobs s) jid = Some job \<and> job_status job = Running
      \<and> rexec env (world s) (job_host job) (checkCmd job) = (Inr r1, w1)
      \<and> (trim (stdout r1) = ''done'' \<or> trim (stdout r1) = [])
      \<and> rexec env w1 (job_host job) (waitCmd job) = (Inr r2, w2)
      \<and> code = (case parseInt (trim (stdout r2)) of None \<Rightarrow> 0 | Some n \<Rightarrow> n)"
  let ?job' = "job\<lparr>job_status := (if code = 0 then Completed else Failed),
                      job_exitCode := Some code, job_endTime := Some (rnow env w2)\<rparr>"
  from a show "fst (getStatus env jid s) = Inr ?job'"
    by (intro getStatus_finalizes(1) [where ?r1.0 = r1 and ?w1.0 = w1 and ?r2.0 = r2 and code = code]) simp_all
  from a show "map_of (jobs (snd (getStatus env jid s))) jid = Some ?job'"
    by (intro getStatus_finalizes(2) [where ?r1.0 = r1 and ?w1.0 = w1 and ?r2.0 = r2 and code = code]) simp_all
  from a show "issued (snd (getStatus env jid s))
          = issued s @ [(job_host job, checkCmd job), (job_host job, waitCmd job)]"
    by (intro getStatus_finalizes(3) [where ?r1.0 = r1 and ?w1.0 = w1 and ?r2.0 = r2 and ?w2.0 = w2]) simp_all
next
  assume b: "map_of (jobs s) k = Some done_job \<and> job_status done_job \<noteq> Running"
  then show "map_of (jobs (snd (getStatus env jid s))) k = Some done_job"
    by (simp add: getStatus_keeps_terminal)
  from b show "map_of (jobs (snd (kill env jid s))) k = Some done_job"
    by (simp add: kill_keeps_terminal)
  from b show "map_of (jobs (snd (JobTracker_list env hostName s))) k = Some done_job"
    by (simp add: list_keeps_terminal)
qed


text \<open>
  C4 on the example tracker. The first half of the claim holds: the third stretch of
  \<open>getStatus\<close> finalizes the record from the output of the \<open>wait\<close> command. The second
  half fails when \<open>kill\<close> and \<open>getStatus\<close> of the running job \<open>j1\<close> overlap: \<open>kill\<close> returns
  true and the record is \<open>Failed\<close> with exit code \<open>-9\<close> and end time 1002; \<open>getStatus\<close>, which
  tested the status before it was suspended and does not test it again, then rewrites
  the terminal record: exit code 127 and end time 1003 when \<open>wait\<close> prints 127, and even
  \<open>Completed\<close> with exit code 0 when it prints 0.
\<close>

theorem terminal_record_rewritten:
  "kill_overlapping_getStatus (racing_remote ''127\<newline>'') ''j1'' example_tracker
     = Some (Inr True,
             Some (example_job1\<lparr>job_status := Failed, job_exitCode := Some (- 9),
                                 job_endTime := Some 1002\<rparr>),
             Inr (example_job1\<lparr>job_status := Failed, job_exitCode := Some 127,
                                job_endTime := Some 1003\<rparr>),
             Some (example_job1\<lparr>job_status := Failed, job_exitCode := Some 127,
                                 job_endTime := Some 1003\<rparr>))
 \<and> kill_overlapping_getStatus (racing_remote ''0\<newline>'') ''j1'' example_tracker
     = Some (Inr True,
             Some (example_job1\<lparr>job_status := Failed, job_exitCode := Some (- 9),
                                 job_endTime := Some 1002\<rparr>),
             Inr (example_job1\<lparr>job_status := Completed, job_exitCode := Some 0,
                                job_endTime := Some 1003\<rparr>),
             Some (example_job1\<lparr>job_status := Completed, job_exitCode := Some 0,
                                 job_endTime := Some 1003\<rparr>))"
  by code_simp

text \<open>
  C5. \<open>kill\<close> fails with \<open>JobNotFound\<close> for an id that is not in the table. For a known
  id it returns false and leaves the tracker as it is when the job is not running; when
  the job runs and the remote command prints \<open>killed\<close> it returns true and the record is
  \<open>Failed\<close> with exit code \<open>-9\<close> and the end time set; when the remote command prints
  anything else it returns false and the job table is unchanged. It returns true in no
  other case, and whenever it returns false the job table is unchanged.
\<close>

theorem kill_contract:
  "(map_of (jobs s) jid = None \<longrightarrow> kill env jid s = (Inl (JobNotFound jid), s))
 \<and> (map_of (jobs s) jid = Some job \<and> job_status job \<noteq> Running \<longrightarrow>
      kill env jid s = (Inr False, s))
 \<and> (map_of (jobs s) jid = Some job \<and> job_status job = Running
      \<and> rexec env (world s) (job_host job) (killCmd job) = (Inr r, w')
      \<and> trim (stdout r) = ''killed'' \<longrightarrow>
      fst (kill env jid s) = Inr True
      \<and> map_of (jobs (snd (kill env jid s))) jid
          = Some (job\<lparr>job_status := Failed, job_exitCode := Some (- 9),
                       job_endTime := Some (rnow env w')\<rparr>))
 \<and> (map_of (jobs s) jid = Some job \<and> job_status job = Running
      \<and> rexec env (world s) (job_host job) (killCmd job) = (Inr r, w')
      \<and> trim (stdout r) \<noteq> ''killed'' \<longrightarrow>
      fst (kill env jid s) = Inr False \<and> jobs (snd (kill env jid s)) = jobs s)
 \<and> (fst (kill env jid s) = Inr True \<longrightarrow>
      (\<exists>j res w. map_of (jobs s) jid = Some j \<and> job_status j = Running
         \<and> rexec env (world s) (job_host j) (killCmd j) = (Inr res, w)
         \<and> trim (stdout res) = ''killed''))
 \<and> (fst (kill env jid s) = Inr False \<longrightarrow> jobs (snd (kill env jid s)) = jobs s)"
proof (intro conjI impI)
  assume "map_of (jobs s) jid = None"
  then show "kill env jid s = (Inl (JobNotFound jid), s)"
    by (simp add: kill_unfold)
next
  assume "map_of (jobs s) jid = Some job \<and> job_status job \<noteq> Running"
  then show "kill env jid s = (Inr False, s)"
    by (simp add: kill_unfold)
next
  assume a: "map_of (jobs s) jid = Some job \<and> job_status job = Running
      \<and> rexec env (world s) (job_host job) (killCmd job) = (Inr r, w')
      \<and> trim (stdout r) = ''killed''"
  then show "fst (kill env jid s) = Inr True"
    by (simp add: kill_unfold run_exec_def Let_def)
  from a show "map_of (jobs (snd (kill env jid s))) jid
          = Some (job\<lparr>job_status := Failed, job_exitCode := Some (- 9),
                       job_endTime := Some (rnow env w')\<rparr>)"
    by (simp add: kill_unfold run_exec_def Let_def map_of_map_set)
next
  assume a: "map_of (jobs s) jid = Some job \<and> job_status job = Running
      \<and> rexec env (world s) (job_host job) (killCmd job) = (Inr r, w')
      \<and> trim (stdout r) \<noteq> ''killed''"
  then show "fst (kill env jid s) = Inr False"
    by (simp add: kill_unfold run_exec_def Let_def)
  from a show "jobs (snd (kill env jid s)) = jobs s"
    by (simp add: kill_unfold run_exec_def Let_def)
next
  assume "fst (kill env jid s) = Inr True"
  then show "\<exists>j res w. map_of (jobs s) jid = Some j \<and> job_status j = Running
         \<and> rexec env (world s) (job_host j) (killCmd j) = (Inr res, w)
         \<and> trim (stdout res) = ''killed''"
    by (auto simp: kill_unfold run_exec_def Let_def
        split: option.splits if_splits prod.splits sum.splits)
next
  assume "fst (kill env jid s) = Inr False"
  then show "jobs (snd (kill env jid s)) = jobs s"
    by (auto simp: kill_unfold run_exec_def Let_def
        split: option.splits if_splits prod.splits sum.splits)
qed

theorem kill_contract_witness:
  "kill killing_remote ''zz'' example_tracker = (Inl (JobNotFound ''zz''), example_tracker)
 \<and> kill killing_remote ''j0'' example_tracker = (Inr False, example_tracker)
 \<and> fst (kill killing_remote ''j1'' example_tracker) = Inr True
 \<and> map_of (jobs (snd (kill killing_remote ''j1'' example_tracker))) ''j1''
     = Some (example_job1\<lparr>job_status := Failed, job_exitCode := Some (- 9),
                          job_endTime := Some 1001\<rparr>)
 \<and> fst (kill example_remote ''j1'' example_tracker) = Inr False
 \<and> jobs (snd (kill example_remote ''j1'' example_tracker)) = jobs example_tracker"
proof -
  let ?rk = "\<lparr>stdout = ''killed\<newline>'', stderr = [], exitCode = 0, duration = 1\<rparr>"
  let ?rd = "\<lparr>stdout = ''done\<newline>'', stderr = [], exitCode = 0, duration = 1\<rparr>"
  have z: "map_of (jobs example_tracker) ''zz'' = None"
    by code_simp
  have b: "map_of (jobs example_tracker) ''j0'' = Some example_job0 \<and> job_status example_job0 \<noteq> Running"
    by code_simp
  have a: "map_of (jobs example_tracker) ''j1'' = Some example_job1 \<and> job_status example_job1 = Running
      \<and> rexec killing_remote (world example_tracker) (job_host example_job1) (killCmd example_job1) = (Inr ?rk, 1)
      \<and> trim (stdout ?rk) = ''killed''"
    by code_simp
  have c: "map_of (jobs example_tracker) ''j1'' = Some example_job1 \<and> job_status example_job1 = Running
      \<and> rexec example_remote (world example_tracker) (job_host example_job1) (killCmd example_job1) = (Inr ?rd, 1)
      \<and> trim (stdout ?rd) \<noteq> ''killed''"
    by code_simp
  have n: "rnow killing_remote 1 = 1001"
    by (simp add: killing_remote_def)
  have 1: "kill killing_remote ''zz'' example_tracker = (Inl (JobNotFound ''zz''), example_tracker)"
    by (rule mp [OF kill_contract [of example_tracker "''zz''" killing_remote example_job0 ?rk 1,
            THEN conjunct1] z])
  have 2: "kill killing_remote ''j0'' example_tracker = (Inr False, example_tracker)"
    by (rule mp [OF kill_contract [of example_tracker "''j0''" killing_remote example_job0 ?rk 1,
            THEN conjunct2, THEN conjunct1] b])
  have 3: "fst (kill killing_remote ''j1'' example_tracker) = Inr True
     \<and> map_of (jobs (snd (kill killing_remote ''j1'' example_tracker))) ''j1''
     = Some (example_job1\<lparr>job_status := Failed, job_exitCode := Some (- 9),
                          job_endTime := Some 1001\<rparr>)"
    using mp [OF kill_contract [of example_tracker "''j1''" killing_remote example_job1 ?rk 1,
            THEN conjunct2, THEN conjunct2, THEN conjunct1] a]
    by (simp only: n)
  have 4: "fst (kill example_remote ''j1'' example_tracker) = Inr False
     \<and> jobs (snd (kill example_remote ''j1'' example_tracker)) = jobs example_tracker"
    by (rule mp [OF kill_contract [of example_tracker "''j1''" example_remote example_job1 ?rd 1,
            THEN conjunct2, THEN conjunct2, THEN conjunct2, THEN conjunct1] c])
  from 1 2 3 4 show ?thesis by (intro conjI) (erule conjunct1 conjunct2 | assumption)+
qed

lemma is_probe_checkCmd: "is_probe (h, checkCmd j)"
  by (simp add: is_probe_def checkCmd_def)

lemma not_probe_waitCmd: "\<not> is_probe (h, waitCmd j)"
  by (simp add: is_probe_def waitCmd_def)

lemma getStatus_issued:
  assumes "map_of (jobs s) jid = Some job" and "job_status job = Running"
  shows "\<exists>tr. issued (snd (getStatus env jid s)) = issued s @ (job_host job, checkCmd job) # tr
            \<and> filter is_probe tr = []"
proof -
  have "issued (snd (getStatus env jid s)) = issued s @ [(job_host job, checkCmd job)]
      \<or> issued (snd (getStatus env jid s))
          = issued s @ [(job_host job, checkCmd job), (job_host job, waitCmd job)]"
    using assms
    by (auto simp: getStatus_unfold run_exec_def Let_def split: prod.splits sum.splits)
  then show ?thesis
    by (auto simp: not_probe_waitCmd)
qed

lemma getStatus_same_ids:
  assumes "map_of (jobs s) k = Some j0"
  shows "\<exists>j1. map_of (jobs (snd (getStatus env jid s))) k = Some j1 \<and> job_id j1 = job_id j0"
  using assms
  by (auto simp: getStatus_unfold run_exec_def Let_def map_of_map_set
      split: option.splits prod.splits sum.splits if_splits)

lemma refresh_loop_same_ids:
  assumes "map_of (jobs s) k = Some j0"
  shows "\<exists>j1. map_of (jobs (snd (refresh_loop env js s))) k = Some j1 \<and> job_id j1 = job_id j0"
  using assms
proof (induction js arbitrary: s j0)
  case Nil
  then show ?case by simp
next
  case (Cons j js)
  show ?case
  proof (cases "job_status (current s j) = Running")
    case False
    with Cons show ?thesis by simp
  next
    case True
    obtain r s' where g: "getStatus env (job_id j) s = (r, s')"
      by (cases "getStatus env (job_id j) s")
    from getStatus_same_ids [OF Cons.prems, of env "job_id j"] g
    obtain j1 where j1: "map_of (jobs s') k = Some j1" "job_id j1 = job_id j0"
      by auto
    show ?thesis
    proof (cases r)
      case (Inl e)
      with True g j1 show ?thesis by simp
    next
      case (Inr j')
      from Cons.IH [OF j1(1)] j1(2) True g Inr show ?thesis by simp
    qed
  qed
qed

lemma refresh_loop_other:
  assumes "k \<notin> job_id ` set js"
  shows "map_of (jobs (snd (refresh_loop env js s))) k = map_of (jobs s) k"
  using assms
proof (induction js arbitrary: s)
  case Nil
  then show ?case by simp
next
  case (Cons j js)
  then have ne: "k \<noteq> job_id j" and rest: "k \<notin> job_id ` set js" by auto
  show ?case
  proof (cases "job_status (current s j) = Running")
    case False
    with Cons.IH [OF rest] show ?thesis by simp
  next
    case True
    obtain r s' where g: "getStatus env (job_id j) s = (r, s')"
      by (cases "getStatus env (job_id j) s")
    have o: "map_of (jobs s') k = map_of (jobs s) k"
      using getStatus_other [OF ne, of env s] g by simp
    show ?thesis
    proof (cases r)
      case (Inl e)
      with True g o show ?thesis by simp
    next
      case (Inr j')
      with True g o Cons.IH [OF rest, of s'] show ?thesis by simp
    qed
  qed
qed

lemma refresh_loop_trace:
  assumes "distinct (map job_id js)"
    and "\<forall>j\<in>set js. map_of (jobs s) (job_id j) = Some j"
    and "fst (refresh_loop env js s) = Inr u"
  shows "\<exists>tr. issued (snd (refresh_loop env js s)) = issued s @ tr
           \<and> filter is_probe tr
               = map (\<lambda>j. (job_host j, checkCmd j)) (filter (\<lambda>j. job_status j = Running) js)"
  using assms
proof (induction js arbitrary: s)
  case Nil
  then show ?case by simp
next
  case (Cons j js)
  from Cons.prems have cur: "map_of (jobs s) (job_id j) = Some j"
    and d: "distinct (map job_id js)" and nin: "job_id j \<notin> job_id ` set js"
    and tab: "\<forall>j'\<in>set js. map_of (jobs s) (job_id j') = Some j'"
    by auto
  from cur have c: "current s j = j" by (simp add: current_def)
  show ?case
  proof (cases "job_status j = Running")
    case False
    with c Cons.prems(3) have "fst (refresh_loop env js s) = Inr u" by simp
    from Cons.IH [OF d tab this] False c show ?thesis by simp
  next
    case True
    obtain r s' where g: "getStatus env (job_id j) s = (r, s')"
      by (cases "getStatus env (job_id j) s")
    with True c Cons.prems(3) obtain j' where r: "r = Inr j'"
      by (cases r) auto
    with True c g Cons.prems(3) have ok: "fst (refresh_loop env js s') = Inr u" by simp
    from getStatus_issued [OF cur True, of env] g
    obtain tr1 where tr1: "issued s' = issued s @ (job_host j, checkCmd j) # tr1"
      "filter is_probe tr1 = []"
      by auto
    have tab': "\<forall>j'\<in>set js. map_of (jobs s') (job_id j') = Some j'"
    proof
      fix j' assume m: "j' \<in> set js"
      with nin have "job_id j' \<noteq> job_id j" by (metis imageI)
      from getStatus_other [OF this, of env s] g tab m
      show "map_of (jobs s') (job_id j') = Some j'" by simp
    qed
    from Cons.IH [OF d tab' ok]
    obtain tr2 where tr2: "issued (snd (refresh_loop env js s')) = issued s' @ tr2"
      "filter is_probe tr2
         = map (\<lambda>j. (job_host j, checkCmd j)) (filter (\<lambda>j. job_status j = Running) js)"
      by auto
    have "issued (snd (refresh_loop env (j # js) s))
        = issued s @ ((job_host j, checkCmd j) # tr1 @ tr2)"
      using True c g r tr1(1) tr2(1) by simp
    moreover have "filter is_probe ((job_host j, checkCmd j) # tr1 @ tr2)
        = map (\<lambda>j. (job_host j, checkCmd j)) (filter (\<lambda>j. job_status j = Running) (j # js))"
      using True tr1(2) tr2(2) by (simp add: is_probe_checkCmd)
    ultimately show ?thesis by blast
  qed
qed

lemma reliable_getStatus:
  assumes "reliable env" and "map_of (jobs s) jid = Some job"
  shows "\<exists>j. fst (getStatus env jid s) = Inr j"
proof -
  have r: "\<And>w h c. \<exists>r w'. rexec env w h c = (Inr r, w')"
  proof -
    fix w h c
    from assms(1) obtain r where "fst (rexec env w h c) = Inr r"
      unfolding reliable_def by blast
    then show "\<exists>r w'. rexec env w h c = (Inr r, w')"
      by (cases "rexec env w h c") auto
  qed
  obtain r1 w1 where e1: "rexec env (world s) (job_host job) (checkCmd job) = (Inr r1, w1)"
    using r by blast
  obtain r2 w2 where e2: "rexec env w1 (job_host job) (waitCmd job) = (Inr r2, w2)"
    using r by blast
  from assms(2) e1 e2 show ?thesis
    by (simp add: getStatus_unfold run_exec_def Let_def)
qed

lemma reliable_refresh_loop:
  assumes "reliable env" and "\<forall>j\<in>set js. map_of (jobs s) (job_id j) \<noteq> None"
  shows "fst (refresh_loop env js s) = Inr ()"
  using assms(2)
proof (induction js arbitrary: s)
  case Nil
  then show ?case by simp
next
  case (Cons j js)
  show ?case
  proof (cases "job_status (current s j) = Running")
    case False
    with Cons show ?thesis by simp
  next
    case True
    obtain r s' where g: "getStatus env (job_id j) s = (r, s')"
      by (cases "getStatus env (job_id j) s")
    from Cons.prems obtain job where "map_of (jobs s) (job_id j) = Some job" by auto
    from reliable_getStatus [OF assms(1) this] g obtain j' where r: "r = Inr j'" by auto
    have "\<forall>j'\<in>set js. map_of (jobs s') (job_id j') \<noteq> None"
    proof
      fix x assume "x \<in> set js"
      with Cons.prems obtain j0 where "map_of (jobs s) (job_id x) = Some j0" by auto
      from getStatus_same_ids [OF this, of env "job_id j"] g
      show "map_of (jobs s') (job_id x) \<noteq> None" by auto
    qed
    from Cons.IH [OF this] True g r show ?thesis by simp
  qed
qed

lemma getStatus_refreshes:
  assumes "map_of (jobs s) jid = Some j" and "job_status j = Running"
    and "fst (getStatus env jid s) = Inr j'"
  shows "\<exists>j1. map_of (jobs (snd (getStatus env jid s))) jid = Some j1 \<and> refreshed env j j1"
proof -
  obtain r1 w1 where e1: "rexec env (world s) (job_host j) (checkCmd j) = (r1, w1)"
    by (cases "rexec env (world s) (job_host j) (checkCmd j)")
  with assms obtain x1 where x1: "r1 = Inr x1"
    by (cases r1) (auto simp: getStatus_unfold run_exec_def)
  show ?thesis
  proof (cases "trim (stdout x1) = ''done'' \<or> trim (stdout x1) = []")
    case False
    with assms e1 x1 have "map_of (jobs (snd (getStatus env jid s))) jid = Some j"
      by (auto simp: getStatus_unfold run_exec_def)
    moreover from e1 x1 False have "refreshed env j j"
      unfolding refreshed_def by (intro exI [of _ "world s"] exI [of _ x1] exI [of _ w1]) simp
    ultimately show ?thesis by blast
  next
    case True
    obtain r2 w2 where e2: "rexec env w1 (job_host j) (waitCmd j) = (r2, w2)"
      by (cases "rexec env w1 (job_host j) (waitCmd j)")
    with assms e1 x1 True obtain x2 where x2: "r2 = Inr x2"
      by (cases r2) (auto simp: getStatus_unfold run_exec_def)
    from assms e1 x1 True e2 x2
    have "map_of (jobs (snd (getStatus env jid s))) jid = Some (finalized env j x2 w2)"
      by (auto simp: getStatus_unfold run_exec_def Let_def map_of_map_set finalized_def)
    moreover from e1 x1 True e2 x2 have "refreshed env j (finalized env j x2 w2)"
      unfolding refreshed_def
      by (intro exI [of _ "world s"] exI [of _ x1] exI [of _ w1]) auto
    ultimately show ?thesis by blast
  qed
qed

lemma refresh_loop_refreshes:
  assumes "distinct (map job_id js)"
    and "\<forall>j\<in>set js. map_of (jobs s) (job_id j) = Some j"
    and "fst (refresh_loop env js s) = Inr u"
    and "j \<in> set js" and "job_status j = Running"
  shows "\<exists>j1. map_of (jobs (snd (refresh_loop env js s))) (job_id j) = Some j1
           \<and> refreshed env j j1"
  using assms
proof (induction js arbitrary: s)
  case Nil
  then show ?case by simp
next
  case (Cons x xs)
  from Cons.prems have cur: "map_of (jobs s) (job_id x) = Some x"
    and d: "distinct (map job_id xs)" and nin: "job_id x \<notin> job_id ` set xs"
    and tab: "\<forall>j'\<in>set xs. map_of (jobs s) (job_id j') = Some j'"
    by auto
  from cur have c: "current s x = x" by (simp add: current_def)
  show ?case
  proof (cases "job_status x = Running")
    case False
    with Cons.prems(4,5) have jin: "j \<in> set xs" by auto
    from False c Cons.prems(3) have ok: "fst (refresh_loop env xs s) = Inr u" by simp
    from Cons.IH [OF d tab ok jin Cons.prems(5)] False c show ?thesis by simp
  next
    case True
    obtain r s' where g: "getStatus env (job_id x) s = (r, s')"
      by (cases "getStatus env (job_id x) s")
    with True c Cons.prems(3) obtain x' where r: "r = Inr x'"
      by (cases r) auto
    with True c g Cons.prems(3) have ok: "fst (refresh_loop env xs s') = Inr u" by simp
    have loop: "snd (refresh_loop env (x # xs) s) = snd (refresh_loop env xs s')"
      using True c g r by simp
    have tab': "\<forall>j'\<in>set xs. map_of (jobs s') (job_id j') = Some j'"
    proof
      fix j' assume m: "j' \<in> set xs"
      with nin have "job_id j' \<noteq> job_id x" by (metis imageI)
      from getStatus_other [OF this, of env s] g tab m
      show "map_of (jobs s') (job_id j') = Some j'" by simp
    qed
    show ?thesis
    proof (cases "j \<in> set xs")
      case True
      from Cons.IH [OF d tab' ok True Cons.prems(5)] loop show ?thesis by simp
    next
      case False
      with Cons.prems(4) have jx: "j = x" by simp
      from getStatus_refreshes [where env = env and j' = x', OF cur \<open>job_status x = Running\<close>] g r
      obtain j1 where j1: "map_of (jobs s') (job_id x) = Some j1" "refreshed env x j1"
        by auto
      from refresh_loop_other [OF nin, of env s'] j1(1)
      have "map_of (jobs (snd (refresh_loop env xs s'))) (job_id x) = Some j1" by simp
      with j1(2) jx loop show ?thesis by simp
    qed
  qed
qed

lemma refresh_loop_fold:
  assumes "distinct (map job_id js)"
    and "\<forall>j\<in>set js. map_of (jobs s) (job_id j) = Some j"
    and "fst (refresh_loop env js s) = Inr u"
  shows "snd (refresh_loop env js s)
       = fold (\<lambda>j t. snd (getStatus env (job_id j) t)) (filter (\<lambda>j. job_status j = Running) js) s"
  using assms
proof (induction js arbitrary: s)
  case Nil
  then show ?case by simp
next
  case (Cons x xs)
  from Cons.prems have cur: "map_of (jobs s) (job_id x) = Some x"
    and d: "distinct (map job_id xs)" and nin: "job_id x \<notin> job_id ` set xs"
    and tab: "\<forall>j'\<in>set xs. map_of (jobs s) (job_id j') = Some j'"
    by auto
  from cur have c: "current s x = x" by (simp add: current_def)
  show ?case
  proof (cases "job_status x = Running")
    case False
    with c Cons.prems(3) have ok: "fst (refresh_loop env xs s) = Inr u" by simp
    from Cons.IH [OF d tab ok] False c show ?thesis by simp
  next
    case True
    obtain r s' where g: "getStatus env (job_id x) s = (r, s')"
      by (cases "getStatus env (job_id x) s")
    with True c Cons.prems(3) obtain x' where r: "r = Inr x'"
      by (cases r) auto
    with True c g Cons.prems(3) have ok: "fst (refresh_loop env xs s') = Inr u" by simp
    have tab': "\<forall>j'\<in>set xs. map_of (jobs s') (job_id j') = Some j'"
    proof
      fix j' assume m: "j' \<in> set xs"
      with nin have "job_id j' \<noteq> job_id x" by (metis imageI)
      from getStatus_other [OF this, of env s] g tab m
      show "map_of (jobs s') (job_id j') = Some j'" by simp
    qed
    from Cons.IH [OF d tab' ok] True c g r show ?thesis by simp
  qed
qed

lemma keyed_ids:
  "list_all (\<lambda>(k, j). job_id j = k) xs \<Longrightarrow> map job_id (map snd xs) = map fst xs"
  by (induction xs) auto

lemma picked_distinct:
  assumes "tracker_ok s"
  shows "distinct (map job_id (picked_jobs hostName s))"
proof -
  from assms have "distinct (map job_id (map snd (jobs s)))"
    by (simp add: tracker_ok_def keyed_ids del: map_map)
  then show ?thesis
    unfolding picked_jobs_def by (rule distinct_map_filter)
qed

lemma picked_in_table:
  assumes "tracker_ok s" and "j \<in> set (picked_jobs hostName s)"
  shows "map_of (jobs s) (job_id j) = Some j"
proof -
  from assms(2) obtain k where kj: "(k, j) \<in> set (jobs s)"
    by (auto simp: picked_jobs_def)
  with assms(1) have "job_id j = k"
    by (auto simp: tracker_ok_def list_all_iff)
  with kj assms(1) show ?thesis
    by (simp add: tracker_ok_def)
qed

lemma list_unfold:
  "JobTracker_list env hostName s =
     (case refresh_loop env (picked_jobs hostName s) s of
        (Inl e, s') \<Rightarrow> (Inl e, s')
      | (Inr u, s') \<Rightarrow>
          (Inr (sort_key (\<lambda>j. - job_startTime j) (map (current s') (picked_jobs hostName s))), s'))"
  unfolding JobTracker_list_def picked_jobs_def Let_def by (rule refl)

lemma snd_list: "snd (JobTracker_list env hostName s) = snd (refresh_loop env (picked_jobs hostName s) s)"
  by (simp add: list_unfold split: prod.splits sum.splits)

text \<open>
  C8, as the code has it. \<open>list\<close> on a well-formed tracker, run with no other operation
  in between. It picks the jobs of the given host, or all jobs when no host is given.
  When it returns, the records come latest start first; they are the records of the
  picked jobs, one for each, as the table holds them after the refresh. The refresh is
  one \<open>getStatus\<close> for each picked job that was running at entry, in table order: the
  remote calls made contain one liveness probe for each of them and no other probe, the
  record of each of them is what its probe and, when the process is gone, its \<open>wait\<close>
  command make of it, and the record of a picked job that was not running is as before.
  With a reliable remote \<open>list\<close> does return. A job that the host filter leaves out is
  not touched, running or not.
\<close>

theorem job_list:
  assumes "tracker_ok s"
  shows "(fst (JobTracker_list env hostName s) = Inr js \<longrightarrow>
            sorted_wrt (\<lambda>a b. job_startTime a \<ge> job_startTime b) js
          \<and> mset (map job_id js) = mset (map job_id (picked_jobs hostName s))
          \<and> (\<forall>j\<in>set js. map_of (jobs (snd (JobTracker_list env hostName s))) (job_id j) = Some j)
          \<and> (\<exists>tr. issued (snd (JobTracker_list env hostName s)) = issued s @ tr
                \<and> filter is_probe tr
                    = map (\<lambda>j. (job_host j, checkCmd j))
                        (filter (\<lambda>j. job_status j = Running) (picked_jobs hostName s)))
          \<and> snd (JobTracker_list env hostName s)
              = fold (\<lambda>j t. snd (getStatus env (job_id j) t))
                  (filter (\<lambda>j. job_status j = Running) (picked_jobs hostName s)) s
          \<and> (\<forall>j\<in>set (picked_jobs hostName s). job_status j = Running \<longrightarrow>
                (\<exists>j1. map_of (jobs (snd (JobTracker_list env hostName s))) (job_id j) = Some j1
                   \<and> refreshed env j j1))
          \<and> (\<forall>j\<in>set (picked_jobs hostName s). job_status j \<noteq> Running \<longrightarrow>
                map_of (jobs (snd (JobTracker_list env hostName s))) (job_id j) = Some j))
       \<and> (reliable env \<longrightarrow> (\<exists>js'. fst (JobTracker_list env hostName s) = Inr js'))
       \<and> (map_of (jobs s) k = Some j0 \<and> \<not> hostFilter hostName (job_host j0) \<longrightarrow>
            map_of (jobs (snd (JobTracker_list env hostName s))) k = Some j0)"
proof (intro conjI impI)
  let ?P = "picked_jobs hostName s"
  let ?s' = "snd (refresh_loop env ?P s)"
  assume res: "fst (JobTracker_list env hostName s) = Inr js"
  then have ok: "fst (refresh_loop env ?P s) = Inr ()"
    and js: "js = sort_key (\<lambda>j. - job_startTime j) (map (current ?s') ?P)"
    by (auto simp: list_unfold split: prod.splits sum.splits)
  have "sorted (map (\<lambda>j. - job_startTime j) js)"
    unfolding js by (rule sorted_sort_key)
  then show "sorted_wrt (\<lambda>a b. job_startTime a \<ge> job_startTime b) js"
    by (simp add: sorted_map)
  have cur: "\<And>p. p \<in> set ?P \<Longrightarrow>
      map_of (jobs ?s') (job_id p) = Some (current ?s' p) \<and> job_id (current ?s' p) = job_id p"
  proof -
    fix p assume "p \<in> set ?P"
    from picked_in_table [OF assms this]
    obtain j1 where "map_of (jobs ?s') (job_id p) = Some j1" "job_id j1 = job_id p"
      using refresh_loop_same_ids [of s "job_id p" p env ?P] by auto
    then show "map_of (jobs ?s') (job_id p) = Some (current ?s' p)
        \<and> job_id (current ?s' p) = job_id p"
      by (simp add: current_def)
  qed
  have "mset js = mset (map (current ?s') ?P)"
    unfolding js by (rule mset_sort)
  then have "mset (map job_id js) = mset (map job_id (map (current ?s') ?P))"
    by (metis mset_map)
  moreover have "map job_id (map (current ?s') ?P) = map job_id ?P"
    by (auto simp: cur)
  ultimately show "mset (map job_id js) = mset (map job_id ?P)"
    by (simp only:)
  show "\<forall>j\<in>set js. map_of (jobs (snd (JobTracker_list env hostName s))) (job_id j) = Some j"
  proof
    fix j assume "j \<in> set js"
    then obtain p where p: "p \<in> set ?P" "j = current ?s' p"
      unfolding js by auto
    with cur [OF p(1)] show "map_of (jobs (snd (JobTracker_list env hostName s))) (job_id j) = Some j"
      by (simp add: snd_list)
  qed
  from refresh_loop_trace [OF picked_distinct [OF assms] _ ok] picked_in_table [OF assms]
  show "\<exists>tr. issued (snd (JobTracker_list env hostName s)) = issued s @ tr
                \<and> filter is_probe tr
                    = map (\<lambda>j. (job_host j, checkCmd j))
                        (filter (\<lambda>j. job_status j = Running) ?P)"
    by (simp add: snd_list)
  have tab: "\<forall>j\<in>set ?P. map_of (jobs s) (job_id j) = Some j"
    using picked_in_table [OF assms] by blast
  show "snd (JobTracker_list env hostName s)
      = fold (\<lambda>j t. snd (getStatus env (job_id j) t))
          (filter (\<lambda>j. job_status j = Running) ?P) s"
    unfolding snd_list by (rule refresh_loop_fold [OF picked_distinct [OF assms] tab ok])
  show "\<forall>j\<in>set ?P. job_status j = Running \<longrightarrow>
      (\<exists>j1. map_of (jobs (snd (JobTracker_list env hostName s))) (job_id j) = Some j1
         \<and> refreshed env j j1)"
    unfolding snd_list
    using refresh_loop_refreshes [OF picked_distinct [OF assms] tab ok] by blast
  show "\<forall>j\<in>set ?P. job_status j \<noteq> Running \<longrightarrow>
      map_of (jobs (snd (JobTracker_list env hostName s))) (job_id j) = Some j"
    unfolding snd_list
    using refresh_loop_keeps_terminal [of s _ _ env ?P] tab by blast
next
  assume rel: "reliable env"
  have "\<forall>j\<in>set (picked_jobs hostName s). map_of (jobs s) (job_id j) \<noteq> None"
    using picked_in_table [OF assms] by auto
  from reliable_refresh_loop [OF rel this]
  show "\<exists>js'. fst (JobTracker_list env hostName s) = Inr js'"
    by (auto simp: list_unfold split: prod.splits sum.splits)
next
  assume a: "map_of (jobs s) k = Some j0 \<and> \<not> hostFilter hostName (job_host j0)"
  have "k \<notin> job_id ` set (picked_jobs hostName s)"
  proof
    assume "k \<in> job_id ` set (picked_jobs hostName s)"
    then obtain p where p: "p \<in> set (picked_jobs hostName s)" "job_id p = k" by auto
    from picked_in_table [OF assms p(1)] p(2) a have "p = j0" by simp
    with p(1) a show False by (simp add: picked_jobs_def)
  qed
  from refresh_loop_other [OF this, of env s] a
  show "map_of (jobs (snd (JobTracker_list env hostName s))) k = Some j0"
    by (simp add: snd_list)
qed


theorem job_list_witness:
  "sorted_wrt (\<lambda>a b. job_startTime a \<ge> job_startTime b)
     [example_job1\<lparr>job_status := Failed, job_exitCode := Some 2, job_endTime := Some 1002\<rparr>,
      example_job0]
 \<and> mset (map job_id
        [example_job1\<lparr>job_status := Failed, job_exitCode := Some 2, job_endTime := Some 1002\<rparr>,
         example_job0])
     = mset (map job_id (picked_jobs None example_tracker))
 \<and> (\<exists>tr. issued (snd (JobTracker_list example_remote None example_tracker))
             = issued example_tracker @ tr
         \<and> filter is_probe tr
             = map (\<lambda>j. (job_host j, checkCmd j))
                 (filter (\<lambda>j. job_status j = Running) (picked_jobs None example_tracker)))
 \<and> map_of (jobs (snd (JobTracker_list example_remote None example_tracker))) ''j1''
     = Some (example_job1\<lparr>job_status := Failed, job_exitCode := Some 2,
                          job_endTime := Some 1002\<rparr>)
 \<and> (\<exists>js'. fst (JobTracker_list example_remote None example_tracker) = Inr js')
 \<and> map_of (jobs (snd (JobTracker_list example_remote (Some ''h'') example_tracker))) ''j0''
     = Some example_job0"
proof -
  let ?js = "[example_job1\<lparr>job_status := Failed, job_exitCode := Some 2, job_endTime := Some 1002\<rparr>,
      example_job0]"
  have ok: "tracker_ok example_tracker"
    by code_simp
  have e: "fst (JobTracker_list example_remote None example_tracker) = Inr ?js"
    by code_simp
  have rel: "reliable example_remote"
    by (simp add: reliable_def example_remote_def)
  have f: "map_of (jobs example_tracker) ''j0'' = Some example_job0
      \<and> \<not> hostFilter (Some ''h'') (job_host example_job0)"
    by code_simp
  have g: "map_of (jobs (fold (\<lambda>j t. snd (getStatus example_remote (job_id j) t))
        (filter (\<lambda>j. job_status j = Running) (picked_jobs None example_tracker))
        example_tracker)) ''j1''
      = Some (example_job1\<lparr>job_status := Failed, job_exitCode := Some 2,
                           job_endTime := Some 1002\<rparr>)"
    by code_simp
  note T = job_list [OF ok, of example_remote None ?js "''j0''" example_job0]
  note U = job_list [OF ok, of example_remote "Some ''h''" ?js "''j0''" example_job0]
  note A = mp [OF T [THEN conjunct1] e]
  note A5 = A [THEN conjunct2, THEN conjunct2, THEN conjunct2, THEN conjunct2, THEN conjunct1]
  show ?thesis
  proof (intro conjI)
    show "sorted_wrt (\<lambda>a b. job_startTime a \<ge> job_startTime b) ?js"
      by (rule A [THEN conjunct1])
    show "mset (map job_id ?js) = mset (map job_id (picked_jobs None example_tracker))"
      by (rule A [THEN conjunct2, THEN conjunct1])
    show "\<exists>tr. issued (snd (JobTracker_list example_remote None example_tracker))
             = issued example_tracker @ tr
         \<and> filter is_probe tr
             = map (\<lambda>j. (job_host j, checkCmd j))
                 (filter (\<lambda>j. job_status j = Running) (picked_jobs None example_tracker))"
      by (rule A [THEN conjunct2, THEN conjunct2, THEN conjunct2, THEN conjunct1])
    show "map_of (jobs (snd (JobTracker_list example_remote None example_tracker))) ''j1''
        = Some (example_job1\<lparr>job_status := Failed, job_exitCode := Some 2,
                             job_endTime := Some 1002\<rparr>)"
      by (rule trans [OF arg_cong [where f = "\<lambda>t. map_of (jobs t) ''j1''", OF A5] g])
    show "\<exists>js'. fst (JobTracker_list example_remote None example_tracker) = Inr js'"
      by (rule mp [OF T [THEN conjunct2, THEN conjunct1] rel])
    show "map_of (jobs (snd (JobTracker_list example_remote (Some ''h'') example_tracker))) ''j0''
        = Some example_job0"
      by (rule mp [OF U [THEN conjunct2, THEN conjunct2] f])
  qed
qed

text \<open>
  C8 as stated fails when a host is given. With a job running on each of the hosts \<open>h\<close>
  and \<open>g\<close>, \<open>list\<close> for host \<open>h\<close> probes and finalizes the job of \<open>h\<close> only: no command is
  sent for the job of \<open>g\<close>, whose record is still \<open>Running\<close> afterwards, although on this
  remote a \<open>getStatus\<close> of it finds the process gone.
\<close>

theorem job_list_counterexample:
  "fst (JobTracker_list example_remote (Some ''h'') example_tracker2)
     = Inr [example_job1\<lparr>job_status := Failed, job_exitCode := Some 2,
                         job_endTime := Some 1002\<rparr>]
 \<and> issued (snd (JobTracker_list example_remote (Some ''h'') example_tracker2))
     = [(''h'', checkCmd example_job1), (''h'', waitCmd example_job1)]
 \<and> map_of (jobs (snd (JobTracker_list example_remote (Some ''h'') example_tracker2))) ''j2''
     = Some example_job2
 \<and> job_status example_job2 = Running
 \<and> fst (getStatus example_remote ''j2'' example_tracker2)
     = Inr (example_job2\<lparr>job_status := Failed, job_exitCode := Some 2,
                          job_endTime := Some 1002\<rparr>)"
  by code_simp

section \<open>Properties of the snapshot manager\<close>

lemma set_list_subset:
  "set (SnapshotManager_list hostName limit lines) \<subseteq> set (parse_lines lines)"
proof -
  have "set (SnapshotManager_list hostName limit lines)
      \<subseteq> set (sort_key (\<lambda>s. - snap_ts (snd s))
          (filter (\<lambda>s. hostFilter hostName (snap_host (snd s))) (parse_lines lines)))"
    unfolding SnapshotManager_list_def by (rule set_take_subset)
  then show ?thesis by auto
qed

lemma find_absent:
  assumes "snapshotId \<notin> snap_id ` snd ` set (parse_lines (metadata st))"
  shows "find (\<lambda>s. snap_id (snd s) = snapshotId) (SnapshotManager_list None 1000 (metadata st)) = None"
proof -
  have "\<And>s. s \<in> set (SnapshotManager_list None 1000 (metadata st)) \<Longrightarrow> snap_id (snd s) \<noteq> snapshotId"
  proof
    fix s assume a: "s \<in> set (SnapshotManager_list None 1000 (metadata st))" and b: "snap_id (snd s) = snapshotId"
    from a set_list_subset have "s \<in> set (parse_lines (metadata st))" by blast
    then have "snap_id (snd s) \<in> snap_id ` snd ` set (parse_lines (metadata st))" by (intro imageI)
    with b assms show False by simp
  qed
  then show ?thesis unfolding find_None_iff by blast
qed

lemma store_exec_resolved:
  "rexec env (remote_world st) h c = (Inr x, w') \<Longrightarrow>
     store_exec env h c st = (Inr x, st\<lparr>remote_world := w', commands := commands st @ [(h, c)]\<rparr>)"
  by (simp add: store_exec_def)

text \<open>
  C2. \<open>restore\<close> looks the id up among the 1000 latest records. An id that is not in the
  log, or not among those records, gives \<open>SnapshotNotFound\<close> and nothing else happens. For
  the record found, a version-control record without its revision and an archive or
  single-file record without its backup path give \<open>CorruptRecord\<close>, and no command is run.
  Otherwise exactly one command is run on the host of the record: \<open>git checkout\<close> of the
  revision inside the original path, \<open>tar -xzf\<close> of the archive into the parent directory
  of the path, or \<open>cp\<close> of the backup over the path; and when that call resolves the
  result is the summary text.
\<close>

theorem restore_dispatch:
  "(snapshotId \<notin> snap_id ` snd ` set (parse_lines (metadata st)) \<longrightarrow>
      restore dirname env snapshotId st = (Inl (SnapshotNotFound snapshotId), st))
 \<and> (find (\<lambda>s. snap_id (snd s) = snapshotId) (SnapshotManager_list None 1000 (metadata st)) = None \<longrightarrow>
      restore dirname env snapshotId st = (Inl (SnapshotNotFound snapshotId), st))
 \<and> (find (\<lambda>s. snap_id (snd s) = snapshotId) (SnapshotManager_list None 1000 (metadata st))
        = Some (i, r) \<longrightarrow>
      (snap_type r = Git \<and> truthy (snap_commit r) = None \<longrightarrow>
         restore dirname env snapshotId st
           = (Inl (CorruptRecord ''Git snapshot missing commit hash''), st))
    \<and> (snap_type r = Tar \<and> truthy (snap_backup r) = None \<longrightarrow>
         restore dirname env snapshotId st
           = (Inl (CorruptRecord ''Tar snapshot missing backup path''), st))
    \<and> (snap_type r = Sftp \<and> truthy (snap_backup r) = None \<longrightarrow>
         restore dirname env snapshotId st
           = (Inl (CorruptRecord ''File snapshot missing backup path''), st))
    \<and> (snap_type r = Git \<and> truthy (snap_commit r) = Some c
          \<and> rexec env (remote_world st) (snap_host r)
               (''cd \"'' @ snap_path r @ ''\" && git checkout '' @ c) = (Inr x, w') \<longrightarrow>
         fst (restore dirname env snapshotId st)
           = Inr (''Restored git commit '' @ take 8 c @ '' in '' @ snap_path r)
         \<and> commands (snd (restore dirname env snapshotId st))
           = commands st @ [(snap_host r, ''cd \"'' @ snap_path r @ ''\" && git checkout '' @ c)])
    \<and> (snap_type r = Tar \<and> truthy (snap_backup r) = Some b
          \<and> rexec env (remote_world st) (snap_host r)
               (''tar -xzf \"'' @ b @ ''\" -C \"'' @ dirname (snap_path r) @ ''\"'') = (Inr x, w') \<longrightarrow>
         fst (restore dirname env snapshotId st)
           = Inr (''Restored '' @ snap_path r @ '' from tar backup'')
         \<and> commands (snd (restore dirname env snapshotId st))
           = commands st @ [(snap_host r,
                ''tar -xzf \"'' @ b @ ''\" -C \"'' @ dirname (snap_path r) @ ''\"'')])
    \<and> (snap_type r = Sftp \<and> truthy (snap_backup r) = Some b
          \<and> rexec env (remote_world st) (snap_host r)
               (''cp \"'' @ b @ ''\" \"'' @ snap_path r @ ''\"'') = (Inr x, w') \<longrightarrow>
         fst (restore dirname env snapshotId st) = Inr (''Restored file '' @ snap_path r)
         \<and> commands (snd (restore dirname env snapshotId st))
           = commands st @ [(snap_host r, ''cp \"'' @ b @ ''\" \"'' @ snap_path r @ ''\"'')]))"
proof (intro conjI impI)
  assume "snapshotId \<notin> snap_id ` snd ` set (parse_lines (metadata st))"
  then have "find (\<lambda>s. snap_id (snd s) = snapshotId) (SnapshotManager_list None 1000 (metadata st)) = None"
    by (rule find_absent)
  then show "restore dirname env snapshotId st = (Inl (SnapshotNotFound snapshotId), st)"
    by (simp add: restore_def)
next
  assume "find (\<lambda>s. snap_id (snd s) = snapshotId) (SnapshotManager_list None 1000 (metadata st)) = None"
  then show "restore dirname env snapshotId st = (Inl (SnapshotNotFound snapshotId), st)"
    by (simp add: restore_def)
next
  assume "find (\<lambda>s. snap_id (snd s) = snapshotId) (SnapshotManager_list None 1000 (metadata st)) = Some (i, r)"
    and "snap_type r = Git \<and> truthy (snap_commit r) = None"
  then show "restore dirname env snapshotId st
           = (Inl (CorruptRecord ''Git snapshot missing commit hash''), st)"
    by (simp add: restore_def restoreGit_def)
next
  assume "find (\<lambda>s. snap_id (snd s) = snapshotId) (SnapshotManager_list None 1000 (metadata st)) = Some (i, r)"
    and "snap_type r = Tar \<and> truthy (snap_backup r) = None"
  then show "restore dirname env snapshotId st
           = (Inl (CorruptRecord ''Tar snapshot missing backup path''), st)"
    by (simp add: restore_def restoreTar_def)
next
  assume "find (\<lambda>s. snap_id (snd s) = snapshotId) (SnapshotManager_list None 1000 (metadata st)) = Some (i, r)"
    and "snap_type r = Sftp \<and> truthy (snap_backup r) = None"
  then show "restore dirname env snapshotId st
           = (Inl (CorruptRecord ''File snapshot missing backup path''), st)"
    by (simp add: restore_def restoreFile_def)
next
  assume f: "find (\<lambda>s. snap_id (snd s) = snapshotId) (SnapshotManager_list None 1000 (metadata st)) = Some (i, r)"
    and a: "snap_type r = Git \<and> truthy (snap_commit r) = Some c
          \<and> rexec env (remote_world st) (snap_host r)
               (''cd \"'' @ snap_path r @ ''\" && git checkout '' @ c) = (Inr x, w')"
  from a have e: "store_exec env (snap_host r) (''cd \"'' @ snap_path r @ ''\" && git checkout '' @ c) st
      = (Inr x, st\<lparr>remote_world := w', commands := commands st
            @ [(snap_host r, ''cd \"'' @ snap_path r @ ''\" && git checkout '' @ c)]\<rparr>)"
    by (intro store_exec_resolved) simp
  from f a e show "fst (restore dirname env snapshotId st)
           = Inr (''Restored git commit '' @ take 8 c @ '' in '' @ snap_path r)"
    by (simp add: restore_def restoreGit_def)
  from f a e show "commands (snd (restore dirname env snapshotId st))
           = commands st @ [(snap_host r, ''cd \"'' @ snap_path r @ ''\" && git checkout '' @ c)]"
    by (simp add: restore_def restoreGit_def)
next
  assume f: "find (\<lambda>s. snap_id (snd s) = snapshotId) (SnapshotManager_list None 1000 (metadata st)) = Some (i, r)"
    and a: "snap_type r = Tar \<and> truthy (snap_backup r) = Some b
          \<and> rexec env (remote_world st) (snap_host r)
               (''tar -xzf \"'' @ b @ ''\" -C \"'' @ dirname (snap_path r) @ ''\"'') = (Inr x, w')"
  from a have e: "store_exec env (snap_host r)
        (''tar -xzf \"'' @ b @ ''\" -C \"'' @ dirname (snap_path r) @ ''\"'') st
      = (Inr x, st\<lparr>remote_world := w', commands := commands st
            @ [(snap_host r, ''tar -xzf \"'' @ b @ ''\" -C \"'' @ dirname (snap_path r) @ ''\"'')]\<rparr>)"
    by (intro store_exec_resolved) simp
  from f a e show "fst (restore dirname env snapshotId st)
           = Inr (''Restored '' @ snap_path r @ '' from tar backup'')"
    by (simp add: restore_def restoreTar_def)
  from f a e show "commands (snd (restore dirname env snapshotId st))
           = commands st @ [(snap_host r,
                ''tar -xzf \"'' @ b @ ''\" -C \"'' @ dirname (snap_path r) @ ''\"'')]"
    by (simp add: restore_def restoreTar_def)
next
  assume f: "find (\<lambda>s. snap_id (snd s) = snapshotId) (SnapshotManager_list None 1000 (metadata st)) = Some (i, r)"
    and a: "snap_type r = Sftp \<and> truthy (snap_backup r) = Some b
          \<and> rexec env (remote_world st) (snap_host r)
               (''cp \"'' @ b @ ''\" \"'' @ snap_path r @ ''\"'') = (Inr x, w')"
  from a have e: "store_exec env (snap_host r) (''cp \"'' @ b @ ''\" \"'' @ snap_path r @ ''\"'') st
      = (Inr x, st\<lparr>remote_world := w', commands := commands st
            @ [(snap_host r, ''cp \"'' @ b @ ''\" \"'' @ snap_path r @ ''\"'')]\<rparr>)"
    by (intro store_exec_resolved) simp
  from f a e show "fst (restore dirname env snapshotId st) = Inr (''Restored file '' @ snap_path r)"
    by (simp add: restore_def restoreFile_def)
  from f a e show "commands (snd (restore dirname env snapshotId st))
           = commands st @ [(snap_host r, ''cp \"'' @ b @ ''\" \"'' @ snap_path r @ ''\"'')]"
    by (simp add: restore_def restoreFile_def)
qed


theorem restore_dispatch_witness:
  "restore (\<lambda>p. ''/etc'') example_remote ''nope'' example_store
     = (Inl (SnapshotNotFound ''nope''), example_store)
 \<and> restore (\<lambda>p. ''/etc'') example_remote ''snap_c'' example_store
     = (Inl (CorruptRecord ''Tar snapshot missing backup path''), example_store)
 \<and> fst (restore (\<lambda>p. ''/etc'') example_remote ''snap_g'' example_store)
     = Inr ''Restored git commit 01234567 in /srv/app''
 \<and> commands (snd (restore (\<lambda>p. ''/etc'') example_remote ''snap_g'' example_store))
     = [(''web'', ''cd \"/srv/app\" && git checkout 0123456789abcdef'')]
 \<and> fst (restore (\<lambda>p. ''/etc'') example_remote ''snap_t'' example_store)
     = Inr ''Restored /etc/nginx from tar backup''
 \<and> commands (snd (restore (\<lambda>p. ''/etc'') example_remote ''snap_t'' example_store))
     = [(''web'', ''tar -xzf \"/b/snapshots/2000/nginx.tar.gz\" -C \"/etc\"'')]
 \<and> fst (restore (\<lambda>p. ''/etc'') example_remote ''snap_f'' example_store)
     = Inr ''Restored file /etc/my.cnf''
 \<and> commands (snd (restore (\<lambda>p. ''/etc'') example_remote ''snap_f'' example_store))
     = [(''db'', ''cp \"/b/snapshots/3000/my.cnf\" \"/etc/my.cnf\"'')]"
proof -
  let ?x = "\<lparr>stdout = ''done\<newline>'', stderr = [], exitCode = 0, duration = 1\<rparr>"
  let ?d = "\<lambda>p :: string. ''/etc''"
  have n: "''nope'' \<notin> snap_id ` snd ` set (parse_lines (metadata example_store))"
    by code_simp
  have fc: "find (\<lambda>s. snap_id (snd s) = ''snap_c'')
      (SnapshotManager_list None 1000 (metadata example_store)) = Some (4, example_corrupt)"
    by code_simp
  have hc: "snap_type example_corrupt = Tar \<and> truthy (snap_backup example_corrupt) = None"
    by code_simp
  have fg: "find (\<lambda>s. snap_id (snd s) = ''snap_g'')
      (SnapshotManager_list None 1000 (metadata example_store)) = Some (0, example_git)"
    by code_simp
  have hg: "snap_type example_git = Git \<and> truthy (snap_commit example_git) = Some ''0123456789abcdef''
      \<and> rexec example_remote (remote_world example_store) (snap_host example_git)
           (''cd \"'' @ snap_path example_git @ ''\" && git checkout '' @ ''0123456789abcdef'')
          = (Inr ?x, 1)"
    by code_simp
  have ft: "find (\<lambda>s. snap_id (snd s) = ''snap_t'')
      (SnapshotManager_list None 1000 (metadata example_store)) = Some (2, example_tar)"
    by code_simp
  have ht: "snap_type example_tar = Tar
      \<and> truthy (snap_backup example_tar) = Some ''/b/snapshots/2000/nginx.tar.gz''
      \<and> rexec example_remote (remote_world example_store) (snap_host example_tar)
           (''tar -xzf \"'' @ ''/b/snapshots/2000/nginx.tar.gz'' @ ''\" -C \"''
              @ ?d (snap_path example_tar) @ ''\"'')
          = (Inr ?x, 1)"
    by code_simp
  have ff: "find (\<lambda>s. snap_id (snd s) = ''snap_f'')
      (SnapshotManager_list None 1000 (metadata example_store)) = Some (3, example_sftp)"
    by code_simp
  have hf: "snap_type example_sftp = Sftp
      \<and> truthy (snap_backup example_sftp) = Some ''/b/snapshots/3000/my.cnf''
      \<and> rexec example_remote (remote_world example_store) (snap_host example_sftp)
           (''cp \"'' @ ''/b/snapshots/3000/my.cnf'' @ ''\" \"'' @ snap_path example_sftp @ ''\"'')
          = (Inr ?x, 1)"
    by code_simp
  have e: "commands example_store = []"
    by (simp add: example_store_def)
  note N = restore_dispatch [where snapshotId = "''nope''" and st = example_store
      and dirname = ?d and env = example_remote, THEN conjunct1]
  note C = restore_dispatch [where snapshotId = "''snap_c''" and st = example_store
      and dirname = ?d and env = example_remote and i = 4 and r = example_corrupt,
      THEN conjunct2, THEN conjunct2]
  note G = restore_dispatch [where snapshotId = "''snap_g''" and st = example_store
      and dirname = ?d and env = example_remote and i = 0 and r = example_git
      and c = "''0123456789abcdef''" and x = ?x and w' = 1,
      THEN conjunct2, THEN conjunct2]
  note T = restore_dispatch [where snapshotId = "''snap_t''" and st = example_store
      and dirname = ?d and env = example_remote and i = 2 and r = example_tar
      and b = "''/b/snapshots/2000/nginx.tar.gz''" and x = ?x and w' = 1,
      THEN conjunct2, THEN conjunct2]
  note F = restore_dispatch [where snapshotId = "''snap_f''" and st = example_store
      and dirname = ?d and env = example_remote and i = 3 and r = example_sftp
      and b = "''/b/snapshots/3000/my.cnf''" and x = ?x and w' = 1,
      THEN conjunct2, THEN conjunct2]
  have 1: "restore ?d example_remote ''nope'' example_store
     = (Inl (SnapshotNotFound ''nope''), example_store)"
    by (rule mp [OF N n])
  have 2: "restore ?d example_remote ''snap_c'' example_store
     = (Inl (CorruptRecord ''Tar snapshot missing backup path''), example_store)"
    by (rule mp [OF mp [OF C fc, THEN conjunct2, THEN conjunct1] hc])
  have 3: "fst (restore ?d example_remote ''snap_g'' example_store)
       = Inr ''Restored git commit 01234567 in /srv/app''
     \<and> commands (snd (restore ?d example_remote ''snap_g'' example_store))
       = [(''web'', ''cd \"/srv/app\" && git checkout 0123456789abcdef'')]"
    using mp [OF mp [OF G fg, THEN conjunct2, THEN conjunct2, THEN conjunct2, THEN conjunct1] hg]
    by (simp add: e example_git_def)
  have 4: "fst (restore ?d example_remote ''snap_t'' example_store)
       = Inr ''Restored /etc/nginx from tar backup''
     \<and> commands (snd (restore ?d example_remote ''snap_t'' example_store))
       = [(''web'', ''tar -xzf \"/b/snapshots/2000/nginx.tar.gz\" -C \"/etc\"'')]"
    using mp [OF mp [OF T ft, THEN conjunct2, THEN conjunct2, THEN conjunct2, THEN conjunct2,
          THEN conjunct1] ht]
    by (simp add: e example_tar_def)
  have 5: "fst (restore ?d example_remote ''snap_f'' example_store)
       = Inr ''Restored file /etc/my.cnf''
     \<and> commands (snd (restore ?d example_remote ''snap_f'' example_store))
       = [(''db'', ''cp \"/b/snapshots/3000/my.cnf\" \"/etc/my.cnf\"'')]"
    using mp [OF mp [OF F ff, THEN conjunct2, THEN conjunct2, THEN conjunct2, THEN conjunct2,
          THEN conjunct2] hf]
    by (simp add: e example_sftp_def)
  from 1 2 3 4 5 show ?thesis
    by (intro conjI) (erule conjunct1 conjunct2 | assumption)+
qed

lemma removeSnapshot_effect:
  "removeCalls (removeSnapshot env s st) = removeCalls st @ [s]
 \<and> commands (removeSnapshot env s st) = commands st @ rm_commands s
 \<and> metadata (removeSnapshot env s st) = metadata st"
  by (simp add: removeSnapshot_def rm_commands_def store_exec_def Let_def
      split: option.splits prod.splits)

lemma cleanup_loop_effect:
  "fst (cleanup_loop env r c byHost xs n st) = n + length (filter (\<lambda>s. \<not> keeps r c byHost s) xs)
 \<and> removeCalls (snd (cleanup_loop env r c byHost xs n st))
     = removeCalls st @ filter (\<lambda>s. \<not> keeps r c byHost s) xs
 \<and> commands (snd (cleanup_loop env r c byHost xs n st))
     = commands st @ concat (map rm_commands (filter (\<lambda>s. \<not> keeps r c byHost s) xs))
 \<and> metadata (snd (cleanup_loop env r c byHost xs n st)) = metadata st"
proof (induction xs arbitrary: n st)
  case Nil
  then show ?case by simp
next
  case (Cons x xs)
  show ?case
  proof (cases "keeps r c byHost x")
    case True
    then have "cleanup_loop env r c byHost (x # xs) n st = cleanup_loop env r c byHost xs n st"
      by (auto simp: keeps_def Let_def)
    with True Cons.IH [of n st] show ?thesis by simp
  next
    case False
    then have "cleanup_loop env r c byHost (x # xs) n st
        = cleanup_loop env r c byHost xs (n + 1) (removeSnapshot env x st)"
      by (auto simp: keeps_def Let_def)
    with False Cons.IH [of "n + 1" "removeSnapshot env x st"] removeSnapshot_effect [of env x st]
    show ?thesis by simp
  qed
qed









lemma cleanup_effect:
  "fst (cleanup env r now hostName st) = length (selected r now hostName (metadata st))
 \<and> removed_between st (snd (cleanup env r now hostName st)) = selected r now hostName (metadata st)
 \<and> commands_between st (snd (cleanup env r now hostName st))
     = concat (map rm_commands (selected r now hostName (metadata st)))
 \<and> metadata (snd (cleanup env r now hostName st)) = metadata st"
  using cleanup_loop_effect [of env r "now - maxAgeDays r * 24 * 60 * 60 * 1000"
      "byHost_of (SnapshotManager_list hostName 10000 (metadata st))"
      "SnapshotManager_list hostName 10000 (metadata st)" 0 st]
  by (simp add: cleanup_def selected_def removed_between_def commands_between_def Let_def)













text \<open>
  C3 on the example store: \<open>cleanup\<close> removes the single-file record and the
  version-control record and deletes the backup of the former on the host, the log is
  left as it is, and the \<open>list\<close> that follows still returns both records. Nothing in
  \<open>list\<close> filters removed records out.
\<close>

theorem removed_snapshot_still_listed:
  "fst (cleanup example_remote example_retention 2000000000 None example_store) = 2
 \<and> removeCalls (snd (cleanup example_remote example_retention 2000000000 None example_store))
     = [(3, example_sftp), (0, example_git)]
 \<and> commands (snd (cleanup example_remote example_retention 2000000000 None example_store))
     = [(''db'', ''rm -rf \"/b/snapshots/3000/my.cnf\"'')]
 \<and> SnapshotManager_list None 20
       (metadata (snd (cleanup example_remote example_retention 2000000000 None example_store)))
     = [(4, example_corrupt), (3, example_sftp), (2, example_tar), (0, example_git)]"
  by code_simp

lemma length_filter_mono:
  "(\<And>x. x \<in> set xs \<Longrightarrow> P x \<Longrightarrow> Q x) \<Longrightarrow> length (filter P xs) \<le> length (filter Q xs)"
  by (induction xs) auto

lemma keeps_mono:
  "c1 \<le> c2 \<Longrightarrow> keeps r c2 byHost s \<Longrightarrow> keeps r c1 byHost s"
  by (auto simp: keeps_def)

lemma selected_mono:
  assumes "now1 \<le> now2"
  shows "set (selected r now1 hostName lines) \<subseteq> set (selected r now2 hostName lines)"
    and "length (selected r now1 hostName lines) \<le> length (selected r now2 hostName lines)"
proof -
  let ?c1 = "now1 - maxAgeDays r * 24 * 60 * 60 * 1000"
  let ?c2 = "now2 - maxAgeDays r * 24 * 60 * 60 * 1000"
  from assms have c: "?c1 \<le> ?c2" by simp
  show "set (selected r now1 hostName lines) \<subseteq> set (selected r now2 hostName lines)"
    using keeps_mono [OF c] by (auto simp: selected_def)
  show "length (selected r now1 hostName lines) \<le> length (selected r now2 hostName lines)"
    unfolding selected_def using keeps_mono [OF c] by (intro length_filter_mono) blast
qed

text \<open>
  C10, as the code has it. A second \<open>cleanup\<close> on the store the first one left, with the
  same arguments. When the clock reading of the second call is not smaller than that of
  the first, every object the first call removed is removed again by the second and the
  second count is not smaller; with the same clock reading the two calls return the same
  count, remove the same objects and run the same commands. The count is the number of objects removed, while a command is run
  only for those with a backup path: a record without one, as a version-control record
  is, is counted each time and nothing is run for it.
\<close>

theorem cleanup_repeat:
  "(now1 \<le> now2 \<longrightarrow>
      set (removed_between st (snd (cleanup env r now1 hostName st)))
        \<subseteq> set (removed_between (snd (cleanup env r now1 hostName st))
                 (snd (cleanup env r now2 hostName (snd (cleanup env r now1 hostName st)))))
    \<and> fst (cleanup env r now1 hostName st)
        \<le> fst (cleanup env r now2 hostName (snd (cleanup env r now1 hostName st))))
 \<and> fst (cleanup env r now1 hostName (snd (cleanup env r now1 hostName st)))
     = fst (cleanup env r now1 hostName st)
 \<and> removed_between (snd (cleanup env r now1 hostName st))
       (snd (cleanup env r now1 hostName (snd (cleanup env r now1 hostName st))))
     = removed_between st (snd (cleanup env r now1 hostName st))
 \<and> commands_between (snd (cleanup env r now1 hostName st))
       (snd (cleanup env r now1 hostName (snd (cleanup env r now1 hostName st))))
     = commands_between st (snd (cleanup env r now1 hostName st))
 \<and> fst (cleanup env r now1 hostName st)
     = length (removed_between st (snd (cleanup env r now1 hostName st)))
 \<and> commands_between st (snd (cleanup env r now1 hostName st))
     = concat (map rm_commands (removed_between st (snd (cleanup env r now1 hostName st))))
 \<and> (truthy (snap_backup (snd s)) = None \<longrightarrow> rm_commands s = [])"
proof -
  let ?st1 = "snd (cleanup env r now1 hostName st)"
  note A = cleanup_effect [of env r now1 hostName st]
  have m: "metadata ?st1 = metadata st" using A by simp
  note B = cleanup_effect [of env r now2 hostName ?st1, unfolded m]
  note C = cleanup_effect [of env r now1 hostName ?st1, unfolded m]
  show ?thesis
  proof (intro conjI impI)
    assume le: "now1 \<le> now2"
    show "set (removed_between st ?st1)
        \<subseteq> set (removed_between ?st1 (snd (cleanup env r now2 hostName ?st1)))"
      using A B selected_mono(1) [OF le, of r hostName "metadata st"] by simp
    show "fst (cleanup env r now1 hostName st) \<le> fst (cleanup env r now2 hostName ?st1)"
      using A B selected_mono(2) [OF le, of r hostName "metadata st"] by simp
  next
    show "fst (cleanup env r now1 hostName ?st1) = fst (cleanup env r now1 hostName st)"
      using A C by simp
    show "removed_between ?st1 (snd (cleanup env r now1 hostName ?st1)) = removed_between st ?st1"
      using A C by simp
    show "commands_between ?st1 (snd (cleanup env r now1 hostName ?st1)) = commands_between st ?st1"
      using A C by simp
    show "fst (cleanup env r now1 hostName st) = length (removed_between st ?st1)"
      using A by simp
    show "commands_between st ?st1 = concat (map rm_commands (removed_between st ?st1))"
      using A by simp
  next
    assume "truthy (snap_backup (snd s)) = None"
    then show "rm_commands s = []" by (simp add: rm_commands_def)
  qed
qed

text \<open>
  C10 as stated fails when the clock moves between the two calls: at 1209601000 the
  cutoff is 1000 and no record of the example store is older, so the first call
  returns 0; one millisecond later the version-control record (timestamp 1000) is older
  than the cutoff and the second call returns 1.
\<close>

theorem cleanup_repeat_counterexample:
  "fst (cleanup example_remote example_retention 1209601000 None example_store) = 0
 \<and> fst (cleanup example_remote example_retention 1209601001 None
          (snd (cleanup example_remote example_retention 1209601000 None example_store))) = 1"
  by code_simp

theorem cleanup_repeat_witness:
  "(0, example_git)
     \<in> set (removed_between
          (snd (cleanup example_remote example_retention 2000000000 None example_store))
          (snd (cleanup example_remote example_retention 2000000001 None
             (snd (cleanup example_remote example_retention 2000000000 None example_store)))))
 \<and> rm_commands (0, example_git) = []"
proof -
  let ?st1 = "snd (cleanup example_remote example_retention 2000000000 None example_store)"
  note T = cleanup_repeat [of 2000000000 2000000001 example_store example_remote
      example_retention None "(0, example_git)"]
  have le: "(2000000000 :: int) \<le> 2000000001" by simp
  have g: "(0, example_git) \<in> set (removed_between example_store ?st1)"
    by code_simp
  have b: "truthy (snap_backup (snd (0 :: nat, example_git))) = None"
    by code_simp
  from mp [OF T [THEN conjunct1] le, THEN conjunct1] g
  have 1: "(0, example_git) \<in> set (removed_between ?st1
      (snd (cleanup example_remote example_retention 2000000001 None ?st1)))"
    by (rule subsetD)
  have 2: "rm_commands (0, example_git) = []"
    by (rule mp [OF T [THEN conjunct2, THEN conjunct2, THEN conjunct2, THEN conjunct2,
            THEN conjunct2, THEN conjunct2] b])
  from 1 2 show ?thesis by (rule conjI)
qed

end
